theory Spec2Isabelle
  imports Complex_Main "HOL-Library.Sublist" "HOL-Library.AList" "HOL-Library.Word"
begin

section \<open>Strings\<close>

text \<open>
  A Python \<open>str\<close> is modelled as a \<open>string\<close> whose characters are the code points
  below 256. On that range \<open>str.lower\<close>, \<open>str.strip\<close>, the regular-expression classes
  \<open>\s\<close> and \<open>\d\<close> and the substring test \<open>in\<close> are the functions below. The
  title-case form of a character is its uppercase form, except that U+00DF becomes the two
  characters \<open>Ss\<close>. The title-case forms of U+00B5 and U+00FF are U+039C and U+0178,
  which are not code points below 256: \<open>upper_char\<close> leaves these two unchanged, and
  nothing is stated below about the title-case form of a string that holds one of them.
\<close>

definition is_upper :: "char \<Rightarrow> bool" where
  "is_upper c =
     (let n = (of_char c :: nat)
      in (65 \<le> n \<and> n \<le> 90) \<or> (192 \<le> n \<and> n \<le> 222 \<and> n \<noteq> 215))"

definition is_lower :: "char \<Rightarrow> bool" where
  "is_lower c =
     (let n = (of_char c :: nat)
      in (97 \<le> n \<and> n \<le> 122) \<or> n = 170 \<or> n = 181 \<or> n = 186
         \<or> (223 \<le> n \<and> n \<le> 255 \<and> n \<noteq> 247))"

definition is_cased :: "char \<Rightarrow> bool" where
  "is_cased c = (is_upper c \<or> is_lower c)"

definition is_space :: "char \<Rightarrow> bool" where
  "is_space c =
     (let n = (of_char c :: nat)
      in (9 \<le> n \<and> n \<le> 13) \<or> (28 \<le> n \<and> n \<le> 32) \<or> n = 133 \<or> n = 160)"

definition is_digit :: "char \<Rightarrow> bool" where
  "is_digit c = (let n = (of_char c :: nat) in 48 \<le> n \<and> n \<le> 57)"

definition lower_char :: "char \<Rightarrow> char" where
  "lower_char c = (if is_upper c then char_of (of_char c + 32 :: nat) else c)"

definition upper_char :: "char \<Rightarrow> char" where
  "upper_char c =
     (let n = (of_char c :: nat)
      in if (97 \<le> n \<and> n \<le> 122) \<or> (224 \<le> n \<and> n \<le> 254 \<and> n \<noteq> 247)
         then char_of (n - 32) else c)"

text \<open>\<open>s.lower()\<close>\<close>

definition lower :: "string \<Rightarrow> string" where
  "lower s = map lower_char s"

text \<open>\<open>s.strip()\<close>: leading and trailing whitespace removed.\<close>

definition strip :: "string \<Rightarrow> string" where
  "strip s = rev (dropWhile is_space (rev (dropWhile is_space s)))"

text \<open>\<open>s.split(d)\<close> for a one-character separator: every separator cuts, so the result
  has one piece more than there are separators.\<close>

fun split :: "char \<Rightarrow> string \<Rightarrow> string list" where
  "split d [] = [[]]"
| "split d (c # cs) =
     (if c = d then [] # split d cs
      else (case split d cs of [] \<Rightarrow> [[c]] | p # ps \<Rightarrow> (c # p) # ps))"

text \<open>\<open>s.startswith(p)\<close> and the substring test \<open>sub in s\<close>.\<close>

fun startswith :: "string \<Rightarrow> string \<Rightarrow> bool" where
  "startswith s [] = True"
| "startswith [] (p # ps) = False"
| "startswith (c # cs) (p # ps) = (c = p \<and> startswith cs ps)"

fun str_in :: "string \<Rightarrow> string \<Rightarrow> bool" where
  "str_in sub [] = (sub = [])"
| "str_in sub (c # cs) = (startswith (c # cs) sub \<or> str_in sub cs)"

text \<open>\<open>s.title()\<close>: a character that follows a cased character is lowercased, any other
  character is title-cased.\<close>

definition title_char :: "char \<Rightarrow> string" where
  "title_char c = (if c = CHR 0xDF then ''Ss'' else [upper_char c])"

fun title_from :: "bool \<Rightarrow> string \<Rightarrow> string" where
  "title_from previous_is_cased [] = []"
| "title_from previous_is_cased (c # cs) =
     (if previous_is_cased then [lower_char c] else title_char c) @ title_from (is_cased c) cs"

definition title :: "string \<Rightarrow> string" where
  "title s = title_from False s"

section \<open>Regular expressions\<close>

text \<open>
  The fragment of \<open>re\<close> that the eleven patterns of the program use: single characters and
  character classes, \<open>$\<close>, concatenation, alternation, greedy \<open>?\<close>, and greedy and lazy
  repetition of a character class. Every pattern of the program has exactly one capturing
  group, at the top level of the concatenation, so a pattern is the triple of what stands
  before, inside and after the parentheses.
\<close>

datatype regex =
    Eps
  | Cls "char \<Rightarrow> bool"
  | Dollar
  | Seq regex regex
  | Alt regex regex
  | Opt regex
  | Star "char \<Rightarrow> bool"
  | LazyStar "char \<Rightarrow> bool"

record pattern =
  before :: regex
  group :: regex
  after :: regex

text \<open>
  The matcher is the backtracking one: \<open>run k s m\<close> matches the stack \<open>k\<close> of pending
  pieces against the input \<open>s\<close> and returns the first success in the order in which
  \<open>re\<close> tries the alternatives (the left branch of \<open>|\<close> first, the longest run of a greedy
  repetition first, the shortest of a lazy one first). The marks \<open>m\<close> are the rest of the
  input at the opening and at the closing parenthesis of the group. \<open>$\<close> without
  \<open>re.MULTILINE\<close> matches at the end of the input and before a final line feed.
\<close>

datatype frame = Re regex | GroupStart | GroupEnd

type_synonym marks = "string \<times> string"

function (sequential) run :: "frame list \<Rightarrow> string \<Rightarrow> marks \<Rightarrow> (marks \<times> string) option" where
  "run [] s m = Some (m, s)"
| "run (GroupStart # k) s (gs, ge) = run k s (s, ge)"
| "run (GroupEnd # k) s (gs, ge) = run k s (gs, s)"
| "run (Re Eps # k) s m = run k s m"
| "run (Re (Cls p) # k) [] m = None"
| "run (Re (Cls p) # k) (x # xs) m = (if p x then run k xs m else None)"
| "run (Re Dollar # k) s m = (if s = [] \<or> s = [CHR 0x0A] then run k s m else None)"
| "run (Re (Seq a b) # k) s m = run (Re a # Re b # k) s m"
| "run (Re (Alt a b) # k) s m =
     (case run (Re a # k) s m of Some r \<Rightarrow> Some r | None \<Rightarrow> run (Re b # k) s m)"
| "run (Re (Opt a) # k) s m =
     (case run (Re a # k) s m of Some r \<Rightarrow> Some r | None \<Rightarrow> run k s m)"
| "run (Re (Star p) # k) [] m = run k [] m"
| "run (Re (Star p) # k) (x # xs) m =
     (if p x
      then (case run (Re (Star p) # k) xs m of Some r \<Rightarrow> Some r | None \<Rightarrow> run k (x # xs) m)
      else run k (x # xs) m)"
| "run (Re (LazyStar p) # k) [] m = run k [] m"
| "run (Re (LazyStar p) # k) (x # xs) m =
     (case run k (x # xs) m of Some r \<Rightarrow> Some r
      | None \<Rightarrow> if p x then run (Re (LazyStar p) # k) xs m else None)"
  by pat_completeness auto
termination
  by (relation "measures [\<lambda>(k, s, m). sum_list (map (\<lambda>f. case f of Re r \<Rightarrow> 2 * size r + 1 | _ \<Rightarrow> 1) k),
                         \<lambda>(k, s, m). length s]") auto

text \<open>A match attempt at the start of \<open>s\<close>: the text of group 1 and the rest of the input.\<close>

definition match_here :: "pattern \<Rightarrow> string \<Rightarrow> (string \<times> string) option" where
  "match_here p s =
     (case run [Re (before p), GroupStart, Re (group p), GroupEnd, Re (after p)] s (s, s) of
        None \<Rightarrow> None
      | Some ((gs, ge), rest) \<Rightarrow> Some (take (length gs - length ge) gs, rest))"

text \<open>\<open>re.search\<close>: the match at the leftmost position that has one.\<close>

fun re_search :: "pattern \<Rightarrow> string \<Rightarrow> (string \<times> string) option" where
  "re_search p [] = match_here p []"
| "re_search p (c # cs) =
     (case match_here p (c # cs) of Some m \<Rightarrow> Some m | None \<Rightarrow> re_search p cs)"

text \<open>\<open>match.group(1)\<close>\<close>

definition group1 :: "string \<times> string \<Rightarrow> string" where
  "group1 m = fst m"

text \<open>Pattern syntax: a literal character, with and without \<open>re.IGNORECASE\<close>; \<open>p+\<close> and
  \<open>p+?\<close>; a sequence of pieces; a literal word.\<close>

definition lit :: "char \<Rightarrow> regex" where
  "lit c = Cls (\<lambda>x. x = c)"

definition liti :: "char \<Rightarrow> regex" where
  "liti c = Cls (\<lambda>x. lower_char x = lower_char c)"

definition Plus :: "(char \<Rightarrow> bool) \<Rightarrow> regex" where
  "Plus p = Seq (Cls p) (Star p)"

definition LazyPlus :: "(char \<Rightarrow> bool) \<Rightarrow> regex" where
  "LazyPlus p = Seq (Cls p) (LazyStar p)"

fun seqs :: "regex list \<Rightarrow> regex" where
  "seqs [] = Eps"
| "seqs (r # rs) = Seq r (seqs rs)"

definition lits :: "string \<Rightarrow> regex" where
  "lits w = seqs (map lit w)"

definition litis :: "string \<Rightarrow> regex" where
  "litis w = seqs (map liti w)"

text \<open>\<open>\s*\<close>, \<open>:?\<close>, \<open>\d+\<close>, \<open>\d+\.?\d*\<close> and the dot under \<open>re.DOTALL\<close>.\<close>

definition ws :: regex where
  "ws = Star is_space"

definition colon :: regex where
  "colon = Opt (lit CHR '':'')"

definition digits :: regex where
  "digits = Plus is_digit"

definition decimal :: regex where
  "decimal = seqs [Plus is_digit, Opt (lit CHR ''.''), Star is_digit]"

definition any_char :: "char \<Rightarrow> bool" where
  "any_char c = True"

section \<open>The reference table\<close>

record ingredient_doc =
  doc_name :: string
  doc_risk_level :: string
  doc_description :: string
  doc_banned_in :: "(string \<times> bool) list option"
  doc_sources :: "string list option"

text \<open>\<open>SAMPLE_INGREDIENTS\<close>, in the order of the dictionary literal, which is the order in
  which \<open>items()\<close> yields it. An absent key of an entry is \<open>None\<close>.\<close>

definition SAMPLE_INGREDIENTS :: "(string \<times> ingredient_doc) list" where
  "SAMPLE_INGREDIENTS = [
    (''water'',
     \<lparr>doc_name = ''Water'',
      doc_risk_level = ''safe'',
      doc_description = ''Essential nutrient, completely safe for consumption'',
      doc_banned_in = None,
      doc_sources = Some [''WHO'', ''FDA'']\<rparr>),
    (''sugar'',
     \<lparr>doc_name = ''Sugar'',
      doc_risk_level = ''safe'',
      doc_description = ''Natural sweetener, safe in moderation'',
      doc_banned_in = None,
      doc_sources = Some [''FDA'']\<rparr>),
    (''salt'',
     \<lparr>doc_name = ''Salt'',
      doc_risk_level = ''safe'',
      doc_description = ''Sodium chloride, essential mineral when consumed in moderation'',
      doc_banned_in = None,
      doc_sources = Some [''FDA'']\<rparr>),
    (''flour'',
     \<lparr>doc_name = ''Flour'',
      doc_risk_level = ''safe'',
      doc_description = ''Wheat flour, safe for most people except those with celiac disease'',
      doc_banned_in = None,
      doc_sources = Some [''FDA'']\<rparr>),
    (''milk'',
     \<lparr>doc_name = ''Milk'',
      doc_risk_level = ''safe'',
      doc_description = ''Dairy product, safe for lactose-tolerant individuals'',
      doc_banned_in = None,
      doc_sources = Some [''FDA'', ''USDA'']\<rparr>),
    (''eggs'',
     \<lparr>doc_name = ''Eggs'',
      doc_risk_level = ''safe'',
      doc_description = ''High-quality protein source, safe when properly cooked'',
      doc_banned_in = None,
      doc_sources = Some [''FDA'', ''USDA'']\<rparr>),
    (''honey'',
     \<lparr>doc_name = ''Honey'',
      doc_risk_level = ''safe'',
      doc_description = ''Natural sweetener with antioxidants, safe for most people (not for infants under 1 year)'',
      doc_banned_in = None,
      doc_sources = Some [''FDA'', ''WHO'']\<rparr>),
    (''olive oil'',
     \<lparr>doc_name = ''Olive Oil'',
      doc_risk_level = ''safe'',
      doc_description = ''Healthy fat, rich in monounsaturated fatty acids'',
      doc_banned_in = None,
      doc_sources = Some [''American Heart Association'']\<rparr>),
    (''rice'',
     \<lparr>doc_name = ''Rice'',
      doc_risk_level = ''safe'',
      doc_description = ''Staple grain, safe when cooked properly'',
      doc_banned_in = None,
      doc_sources = Some [''USDA'']\<rparr>),
    (''oats'',
     \<lparr>doc_name = ''Oats'',
      doc_risk_level = ''safe'',
      doc_description = ''Whole grain high in fiber and beneficial for heart health'',
      doc_banned_in = None,
      doc_sources = Some [''FDA'', ''USDA'']\<rparr>),
    (''coconut oil'',
     \<lparr>doc_name = ''Coconut Oil'',
      doc_risk_level = ''safe'',
      doc_description = ''Natural fat, stable for cooking, contains medium-chain triglycerides'',
      doc_banned_in = None,
      doc_sources = Some [''FDA'']\<rparr>),
    (''sodium benzoate'',
     \<lparr>doc_name = ''Sodium Benzoate'',
      doc_risk_level = ''caution'',
      doc_description = ''Preservative that may cause allergic reactions in sensitive individuals'',
      doc_banned_in = None,
      doc_sources = Some [''FDA'', ''European Food Safety Authority'']\<rparr>),
    (''high fructose corn syrup'',
     \<lparr>doc_name = ''High Fructose Corn Syrup'',
      doc_risk_level = ''caution'',
      doc_description = ''Sweetener linked to obesity and metabolic issues when consumed in excess'',
      doc_banned_in = None,
      doc_sources = Some [''American Heart Association'', ''Mayo Clinic'']\<rparr>),
    (''monosodium glutamate'',
     \<lparr>doc_name = ''Monosodium Glutamate (MSG)'',
      doc_risk_level = ''caution'',
      doc_description = ''Flavor enhancer that may cause headaches in sensitive individuals'',
      doc_banned_in = None,
      doc_sources = Some [''FDA'']\<rparr>),
    (''artificial vanilla'',
     \<lparr>doc_name = ''Artificial Vanilla'',
      doc_risk_level = ''caution'',
      doc_description = ''Synthetic flavoring, generally safe but some prefer natural alternatives'',
      doc_banned_in = None,
      doc_sources = Some [''FDA'']\<rparr>),
    (''potassium sorbate'',
     \<lparr>doc_name = ''Potassium Sorbate'',
      doc_risk_level = ''caution'',
      doc_description = ''Preservative that may cause skin irritation in sensitive individuals'',
      doc_banned_in = None,
      doc_sources = Some [''FDA'']\<rparr>),
    (''aspartame'',
     \<lparr>doc_name = ''Aspartame'',
      doc_risk_level = ''caution'',
      doc_description = ''Artificial sweetener, not recommended for people with PKU condition'',
      doc_banned_in = None,
      doc_sources = Some [''FDA'', ''WHO'']\<rparr>),
    (''acesulfame k'',
     \<lparr>doc_name = ''Acesulfame Potassium (Ace-K)'',
      doc_risk_level = ''caution'',
      doc_description = ''Artificial sweetener, safe within limits but controversial for long-term effects'',
      doc_banned_in = None,
      doc_sources = Some [''FDA'']\<rparr>),
    (''saccharin'',
     \<lparr>doc_name = ''Saccharin'',
      doc_risk_level = ''caution'',
      doc_description = ''Artificial sweetener, allowed but linked to bladder cancer in animal studies'',
      doc_banned_in = None,
      doc_sources = Some [''FDA'', ''National Cancer Institute'']\<rparr>),
    (''sodium nitrate'',
     \<lparr>doc_name = ''Sodium Nitrate'',
      doc_risk_level = ''caution'',
      doc_description = ''Used in processed meats, may form carcinogenic nitrosamines when cooked at high heat'',
      doc_banned_in = None,
      doc_sources = Some [''WHO'', ''FDA'']\<rparr>),
    (''red dye 40'',
     \<lparr>doc_name = ''Red Dye 40'',
      doc_risk_level = ''banned'',
      doc_description = ''Artificial coloring banned in several countries due to hyperactivity concerns'',
      doc_banned_in = Some [(''EU'', True), (''Norway'', True), (''Austria'', True)],
      doc_sources = Some [''European Food Safety Authority'', ''Center for Science in Public Interest'']\<rparr>),
    (''yellow dye 6'',
     \<lparr>doc_name = ''Yellow Dye 6'',
      doc_risk_level = ''banned'',
      doc_description = ''Artificial coloring banned in some countries, linked to hyperactivity'',
      doc_banned_in = Some [(''Norway'', True), (''Finland'', True)],
      doc_sources = Some [''European Food Safety Authority'']\<rparr>),
    (''bha'',
     \<lparr>doc_name = ''BHA (Butylated Hydroxyanisole)'',
      doc_risk_level = ''banned'',
      doc_description = ''Preservative classified as possible carcinogen, banned in some countries'',
      doc_banned_in = Some [(''EU'', True), (''Japan'', True)],
      doc_sources = Some [''International Agency for Research on Cancer'']\<rparr>),
    (''bht'',
     \<lparr>doc_name = ''BHT (Butylated Hydroxytoluene)'',
      doc_risk_level = ''banned'',
      doc_description = ''Preservative banned in several countries due to health concerns'',
      doc_banned_in = Some [(''EU'', True), (''Australia'', True), (''New Zealand'', True)],
      doc_sources = Some [''European Food Safety Authority'']\<rparr>),
    (''trans fat'',
     \<lparr>doc_name = ''Trans Fat'',
      doc_risk_level = ''banned'',
      doc_description = ''Artificial trans fats banned due to cardiovascular health risks'',
      doc_banned_in = Some [(''US'', True), (''Canada'', True), (''EU'', True)],
      doc_sources = Some [''WHO'', ''FDA'', ''American Heart Association'']\<rparr>),
    (''brominated vegetable oil'',
     \<lparr>doc_name = ''Brominated Vegetable Oil (BVO)'',
      doc_risk_level = ''banned'',
      doc_description = ''Emulsifier banned in EU and Japan, linked to reproductive and thyroid issues'',
      doc_banned_in = Some [(''EU'', True), (''Japan'', True), (''India'', True)],
      doc_sources = Some [''FDA'', ''EFSA'']\<rparr>),
    (''azodicarbonamide'',
     \<lparr>doc_name = ''Azodicarbonamide'',
      doc_risk_level = ''banned'',
      doc_description = ''Used in bread as a dough conditioner, banned in EU and Australia'',
      doc_banned_in = Some [(''EU'', True), (''Australia'', True), (''Singapore'', True)],
      doc_sources = Some [''European Food Safety Authority'', ''FDA'']\<rparr>),
    (''ractopamine'',
     \<lparr>doc_name = ''Ractopamine'',
      doc_risk_level = ''banned'',
      doc_description = ''Feed additive banned in EU, China, and Russia due to safety concerns'',
      doc_banned_in = Some [(''EU'', True), (''China'', True), (''Russia'', True)],
      doc_sources = Some [''FAO'', ''EFSA'']\<rparr>)  ]"

section \<open>Parsing the label text\<close>

text \<open>\<open>r"ingredients?\s*:?\s*(.+?)(?:\n\n|nutrition|$)"\<close> with
  \<open>re.DOTALL | re.IGNORECASE\<close>.\<close>

definition ingredients_pattern :: pattern where
  "ingredients_pattern = \<lparr>
     before = seqs [litis ''ingredient'', Opt (liti CHR ''s''), ws, Opt (liti CHR '':''), ws],
     group = LazyPlus any_char,
     after = Alt (litis ''\<newline>\<newline>'') (Alt (litis ''nutrition'') Dollar) \<rparr>"

definition parse_ingredients_from_text :: "string \<Rightarrow> string list" where
  "parse_ingredients_from_text text =
     (case re_search ingredients_pattern (lower text) of
        Some ingredients_match \<Rightarrow>
          (let ingredients_text = group1 ingredients_match;
               ingredients = map strip (split CHR '','' ingredients_text);
               ingredients = filter (\<lambda>ing. length ing > 2) ingredients
           in ingredients)
      | None \<Rightarrow> [])"

text \<open>The ten nutrition patterns, in the order of the dictionary literal.\<close>

definition patterns :: "(string \<times> pattern) list" where
  "patterns = [
     (''calories'',
      \<lparr>before = seqs [lits ''calorie'', Opt (lit CHR ''s''), ws, colon, ws],
       group = digits, after = Eps\<rparr>),
     (''total_fat'',
      \<lparr>before = seqs [lits ''total'', ws, lits ''fat'', ws, colon, ws],
       group = decimal, after = seqs [ws, lits ''g'']\<rparr>),
     (''saturated_fat'',
      \<lparr>before = seqs [lits ''saturated'', ws, lits ''fat'', ws, colon, ws],
       group = decimal, after = seqs [ws, lits ''g'']\<rparr>),
     (''trans_fat'',
      \<lparr>before = seqs [lits ''trans'', ws, lits ''fat'', ws, colon, ws],
       group = decimal, after = seqs [ws, lits ''g'']\<rparr>),
     (''cholesterol'',
      \<lparr>before = seqs [lits ''cholesterol'', ws, colon, ws],
       group = digits, after = seqs [ws, lits ''mg'']\<rparr>),
     (''sodium'',
      \<lparr>before = seqs [lits ''sodium'', ws, colon, ws],
       group = digits, after = seqs [ws, lits ''mg'']\<rparr>),
     (''total_carbs'',
      \<lparr>before = seqs [lits ''total'', ws, lits ''carbohydrate'', ws, colon, ws],
       group = digits, after = seqs [ws, lits ''g'']\<rparr>),
     (''fiber'',
      \<lparr>before = seqs [lits ''dietary'', ws, lits ''fiber'', ws, colon, ws],
       group = digits, after = seqs [ws, lits ''g'']\<rparr>),
     (''sugars'',
      \<lparr>before = seqs [Opt (seqs [lits ''total'', ws]), lits ''sugar'', Opt (lit CHR ''s''),
                      ws, colon, ws],
       group = decimal, after = seqs [ws, lits ''g'']\<rparr>),
     (''protein'',
      \<lparr>before = seqs [lits ''protein'', ws, colon, ws],
       group = decimal, after = seqs [ws, lits ''g'']\<rparr>)]"

text \<open>The loop over \<open>patterns.items()\<close>; \<open>nutritional_info[nutrient] = ...\<close> is the update of
  an insertion-ordered dictionary.\<close>

fun extract_loop :: "(string \<times> pattern) list \<Rightarrow> string \<Rightarrow> (string \<times> string) list
                      \<Rightarrow> (string \<times> string) list" where
  "extract_loop [] text nutritional_info = nutritional_info"
| "extract_loop ((nutrient, pat) # rest) text nutritional_info =
     (case re_search pat (lower text) of
        Some m \<Rightarrow> extract_loop rest text (AList.update nutrient (group1 m) nutritional_info)
      | None \<Rightarrow> extract_loop rest text nutritional_info)"

definition extract_nutritional_info :: "string \<Rightarrow> (string \<times> string) list" where
  "extract_nutritional_info text = extract_loop patterns text []"

section \<open>Classifying the ingredients\<close>

record IngredientAnalysis =
  name :: string
  risk_level :: string
  description :: string
  banned_in :: "(string \<times> bool) list"
  sources :: "string list"
  confidence :: real

text \<open>
  The persistent store is outside the program. A call into it either raises (\<open>Inl\<close> with
  the message of the exception) or returns. \<open>find_one\<close> is given the lowercased, trimmed
  ingredient name from which the program builds its query; \<open>db\<close> is \<open>None\<close> when the
  global handle is.
\<close>

record scan_document =
  sd_id :: string
  sd_image_filename :: "string option"
  sd_image_size :: nat
  sd_ocr_text :: string
  sd_parsed_ingredients :: "IngredientAnalysis list"
  sd_nutritional_info :: "(string \<times> string) list"
  sd_processing_time :: real
  sd_created_at :: real

record database =
  find_one :: "string \<Rightarrow> string + ingredient_doc option"
  insert_one :: "scan_document \<Rightarrow> string + unit"

text \<open>The store pass of the loop body: \<open>db_ingredient\<close> after the \<open>try\<close>.\<close>

definition db_lookup :: "database option \<Rightarrow> string \<Rightarrow> ingredient_doc option" where
  "db_lookup db ingredient_lower =
     (case db of
        None \<Rightarrow> None
      | Some d \<Rightarrow> (case find_one d ingredient_lower of Inl e \<Rightarrow> None | Inr r \<Rightarrow> r))"

text \<open>The inner loop over \<open>SAMPLE_INGREDIENTS.items()\<close>, left at the first hit.\<close>

fun find_sample :: "(string \<times> ingredient_doc) list \<Rightarrow> string \<Rightarrow> ingredient_doc option" where
  "find_sample [] ingredient_lower = None"
| "find_sample ((key, ingredient) # rest) ingredient_lower =
     (if str_in key ingredient_lower \<or> str_in ingredient_lower key then Some ingredient
      else find_sample rest ingredient_lower)"

text \<open>\<open>d.get(k, default)\<close> on an optional key.\<close>

definition get_or :: "'a option \<Rightarrow> 'a \<Rightarrow> 'a" where
  "get_or v dflt = (case v of None \<Rightarrow> dflt | Some x \<Rightarrow> x)"

text \<open>The body of the loop of \<open>analyze_ingredients\<close> for one name.\<close>

definition analysis :: "database option \<Rightarrow> string \<Rightarrow> IngredientAnalysis" where
  "analysis db ingredient_name =
     (let ingredient_lower = strip (lower ingredient_name)
      in case db_lookup db ingredient_lower of
           Some db_ingredient \<Rightarrow>
             \<lparr>name = doc_name db_ingredient,
              risk_level = doc_risk_level db_ingredient,
              description = doc_description db_ingredient,
              banned_in = get_or (doc_banned_in db_ingredient) [],
              sources = get_or (doc_sources db_ingredient) [],
              confidence = 0.95\<rparr>
         | None \<Rightarrow>
             (case find_sample SAMPLE_INGREDIENTS ingredient_lower of
                Some found_ingredient \<Rightarrow>
                  \<lparr>name = doc_name found_ingredient,
                   risk_level = doc_risk_level found_ingredient,
                   description = doc_description found_ingredient,
                   banned_in = get_or (doc_banned_in found_ingredient) [],
                   sources = get_or (doc_sources found_ingredient) [],
                   confidence = 0.85\<rparr>
              | None \<Rightarrow>
                  \<lparr>name = title ingredient_name,
                   risk_level = ''safe'',
                   description = ''Ingredient not found in database. Generally considered safe.'',
                   banned_in = [],
                   sources = [],
                   confidence = 0.3\<rparr>))"

fun analyze_loop :: "database option \<Rightarrow> string list \<Rightarrow> IngredientAnalysis list
                      \<Rightarrow> IngredientAnalysis list" where
  "analyze_loop db [] analyzed_ingredients = analyzed_ingredients"
| "analyze_loop db (ingredient_name # rest) analyzed_ingredients =
     analyze_loop db rest (analyzed_ingredients @ [analysis db ingredient_name])"

definition analyze_ingredients :: "database option \<Rightarrow> string list \<Rightarrow> IngredientAnalysis list" where
  "analyze_ingredients db ingredient_names = analyze_loop db ingredient_names []"

section \<open>The scan request\<close>

record upload_file =
  filename :: "string option"
  content_type :: "string option"
  content :: "8 word list"

record image_info =
  info_filename :: "string option"
  info_size :: nat
  info_content_type :: "string option"

record ScanResult =
  scan_id :: string
  ocr_text :: string
  parsed_ingredients :: "IngredientAnalysis list"
  processing_time :: real
  image_info :: image_info
  nutritional_info :: "(string \<times> string) list"

record HTTPException =
  status_code :: nat
  detail :: string

text \<open>
  What a request takes from outside the program besides the store: whether the image
  library accepts the bytes, the text the OCR service returns, the fresh identifier and
  the clock readings.
\<close>

record environment =
  image_valid :: bool
  extracted_text :: string
  new_scan_id :: string
  elapsed :: real
  now :: real

text \<open>
  \<open>scan_food_label\<close> returns the response and whether the scan document reached the
  store. An exception of \<open>insert_one\<close> is caught and only printed; console output is not
  modelled.
\<close>

definition store_scan :: "database option \<Rightarrow> scan_document \<Rightarrow> bool" where
  "store_scan db scan_doc =
     (case db of
        None \<Rightarrow> False
      | Some d \<Rightarrow> (case insert_one d scan_doc of Inl e \<Rightarrow> False | Inr u \<Rightarrow> True))"

definition scan_food_label ::
  "database option \<Rightarrow> environment \<Rightarrow> upload_file \<Rightarrow> (HTTPException + ScanResult) \<times> bool" where
  "scan_food_label db env file =
     (if content_type file = None \<or> content_type file = Some []
         \<or> \<not> startswith (the (content_type file)) ''image/''
      then (Inl \<lparr>status_code = 400, detail = ''Only image files are allowed''\<rparr>, False)
      else if length (content file) > 10 * 1024 * 1024
      then (Inl \<lparr>status_code = 413, detail = ''File size exceeds 10MB limit''\<rparr>, False)
      else if \<not> image_valid env
      then (Inl \<lparr>status_code = 400, detail = ''Invalid image file''\<rparr>, False)
      else
        (let ingredient_names = parse_ingredients_from_text (extracted_text env);
             nutritional = extract_nutritional_info (extracted_text env);
             analyzed_ingredients = analyze_ingredients db ingredient_names;
             scan_doc = \<lparr>sd_id = new_scan_id env,
                         sd_image_filename = filename file,
                         sd_image_size = length (content file),
                         sd_ocr_text = extracted_text env,
                         sd_parsed_ingredients = analyzed_ingredients,
                         sd_nutritional_info = nutritional,
                         sd_processing_time = elapsed env,
                         sd_created_at = now env\<rparr>;
             stored = store_scan db scan_doc
         in (Inr \<lparr>scan_id = new_scan_id env,
                  ocr_text = extracted_text env,
                  parsed_ingredients = analyzed_ingredients,
                  processing_time = elapsed env,
                  image_info = \<lparr>info_filename = filename file,
                                 info_size = length (content file),
                                 info_content_type = content_type file\<rparr>,
                  nutritional_info = nutritional\<rparr>,
             stored)))"

section \<open>The matcher, piece by piece\<close>

text \<open>
  The matcher read piece by piece: \<open>ends a s\<close> lists, in the order in which the matcher
  tries them, the rests of \<open>s\<close> that a match of the piece \<open>a\<close> at the start of \<open>s\<close> can
  leave, and \<open>first_some\<close> takes the first success along such a list.
\<close>

fun ends :: "regex \<Rightarrow> string \<Rightarrow> string list" where
  "ends Eps s = [s]"
| "ends (Cls p) [] = []"
| "ends (Cls p) (x # xs) = (if p x then [xs] else [])"
| "ends Dollar s = (if s = [] \<or> s = [CHR 0x0A] then [s] else [])"
| "ends (Seq a b) s = concat (map (ends b) (ends a s))"
| "ends (Alt a b) s = ends a s @ ends b s"
| "ends (Opt a) s = ends a s @ [s]"
| "ends (Star p) [] = [[]]"
| "ends (Star p) (x # xs) = (if p x then ends (Star p) xs else []) @ [x # xs]"
| "ends (LazyStar p) [] = [[]]"
| "ends (LazyStar p) (x # xs) = (x # xs) # (if p x then ends (LazyStar p) xs else [])"

fun first_some :: "('a \<Rightarrow> 'b option) \<Rightarrow> 'a list \<Rightarrow> 'b option" where
  "first_some f [] = None"
| "first_some f (x # xs) = (case f x of Some r \<Rightarrow> Some r | None \<Rightarrow> first_some f xs)"

text \<open>\<open>leads a c s\<close>: on the input \<open>c @ s\<close> the first way the matcher tries for the piece
  \<open>a\<close> consumes exactly \<open>c\<close>.\<close>

definition leads :: "regex \<Rightarrow> string \<Rightarrow> string \<Rightarrow> bool" where
  "leads a c s = (\<exists>others. ends a (c @ s) = s # others)"


section \<open>The reference label\<close>



section \<open>Numerals and separators in a label\<close>

text \<open>Words for stating what the nutrition patterns accept: a run of whitespace, an
  optional colon, a run of digits, and digits optionally followed by a point and digits.\<close>

definition spaces :: "string \<Rightarrow> bool" where
  "spaces w = list_all is_space w"

definition opt_colon :: "string \<Rightarrow> bool" where
  "opt_colon c = (c = [] \<or> c = '':'')"

definition integer_text :: "string \<Rightarrow> bool" where
  "integer_text n = (n \<noteq> [] \<and> list_all is_digit n)"

definition decimal_text :: "string \<Rightarrow> bool" where
  "decimal_text n =
     (\<exists>d1 d2. integer_text d1 \<and> list_all is_digit d2 \<and> (n = d1 \<or> n = d1 @ ''.'' @ d2))"

section \<open>The header and the optional group\<close>

text \<open>The header the parser looks for, \<open>r"ingredients?:?"\<close> under \<open>re.IGNORECASE\<close>, and
  whether it matches anywhere in a text.\<close>

definition header :: regex where
  "header = seqs [litis ''ingredient'', Opt (liti CHR ''s''), Opt (liti CHR '':'')]"

fun matches_in :: "regex \<Rightarrow> string \<Rightarrow> bool" where
  "matches_in r [] = (ends r [] \<noteq> [])"
| "matches_in r (c # cs) = (ends r (c # cs) \<noteq> [] \<or> matches_in r cs)"

definition has_header :: "string \<Rightarrow> bool" where
  "has_header text = matches_in header text"

text \<open>
  In Python \<open>match.group(1)\<close> is \<open>None\<close> when the group took no part in the match, and
  \<open>None.split\<close> raises. \<open>run_opt\<close> is the matcher with marks that start unset;
  \<open>parse_ingredients_checked\<close> is the parser with that exception as a result.
\<close>

type_synonym opt_marks = "string option \<times> string option"

function (sequential) run_opt ::
  "frame list \<Rightarrow> string \<Rightarrow> opt_marks \<Rightarrow> (opt_marks \<times> string) option" where
  "run_opt [] s m = Some (m, s)"
| "run_opt (GroupStart # k) s (gs, ge) = run_opt k s (Some s, ge)"
| "run_opt (GroupEnd # k) s (gs, ge) = run_opt k s (gs, Some s)"
| "run_opt (Re Eps # k) s m = run_opt k s m"
| "run_opt (Re (Cls p) # k) [] m = None"
| "run_opt (Re (Cls p) # k) (x # xs) m = (if p x then run_opt k xs m else None)"
| "run_opt (Re Dollar # k) s m = (if s = [] \<or> s = [CHR 0x0A] then run_opt k s m else None)"
| "run_opt (Re (Seq a b) # k) s m = run_opt (Re a # Re b # k) s m"
| "run_opt (Re (Alt a b) # k) s m =
     (case run_opt (Re a # k) s m of Some r \<Rightarrow> Some r | None \<Rightarrow> run_opt (Re b # k) s m)"
| "run_opt (Re (Opt a) # k) s m =
     (case run_opt (Re a # k) s m of Some r \<Rightarrow> Some r | None \<Rightarrow> run_opt k s m)"
| "run_opt (Re (Star p) # k) [] m = run_opt k [] m"
| "run_opt (Re (Star p) # k) (x # xs) m =
     (if p x
      then (case run_opt (Re (Star p) # k) xs m of Some r \<Rightarrow> Some r
            | None \<Rightarrow> run_opt k (x # xs) m)
      else run_opt k (x # xs) m)"
| "run_opt (Re (LazyStar p) # k) [] m = run_opt k [] m"
| "run_opt (Re (LazyStar p) # k) (x # xs) m =
     (case run_opt k (x # xs) m of Some r \<Rightarrow> Some r
      | None \<Rightarrow> if p x then run_opt (Re (LazyStar p) # k) xs m else None)"
  by pat_completeness auto
termination
  by (relation "measures [\<lambda>(k, s, m). sum_list (map (\<lambda>f. case f of Re r \<Rightarrow> 2 * size r + 1 | _ \<Rightarrow> 1) k),
                         \<lambda>(k, s, m). length s]") auto

definition group_text :: "opt_marks \<Rightarrow> string option" where
  "group_text m =
     (case m of
        (Some gs, Some ge) \<Rightarrow> Some (take (length gs - length ge) gs)
      | _ \<Rightarrow> None)"

definition match_here_opt :: "pattern \<Rightarrow> string \<Rightarrow> (string option \<times> string) option" where
  "match_here_opt p s =
     (case run_opt [Re (before p), GroupStart, Re (group p), GroupEnd, Re (after p)] s (None, None) of
        None \<Rightarrow> None
      | Some (m, rest) \<Rightarrow> Some (group_text m, rest))"

fun re_search_opt :: "pattern \<Rightarrow> string \<Rightarrow> (string option \<times> string) option" where
  "re_search_opt p [] = match_here_opt p []"
| "re_search_opt p (c # cs) =
     (case match_here_opt p (c # cs) of Some m \<Rightarrow> Some m | None \<Rightarrow> re_search_opt p cs)"

datatype py_error = AttributeError

definition parse_ingredients_checked :: "string \<Rightarrow> py_error + string list" where
  "parse_ingredients_checked text =
     (case re_search_opt ingredients_pattern (lower text) of
        Some ingredients_match \<Rightarrow>
          (case fst ingredients_match of
             None \<Rightarrow> Inl AttributeError
           | Some ingredients_text \<Rightarrow>
               (let ingredients = map strip (split CHR '','' ingredients_text);
                    ingredients = filter (\<lambda>ing. length ing > 2) ingredients
                in Inr ingredients))
      | None \<Rightarrow> Inr [])"

text \<open>The marks of \<open>run_opt\<close> in terms of those of \<open>run\<close>: a mark is set where the stack
  holds the frame that sets it.\<close>

definition lift_marks :: "frame list \<Rightarrow> opt_marks \<Rightarrow> marks \<times> string \<Rightarrow> opt_marks \<times> string" where
  "lift_marks k mo res =
     ((if GroupStart \<in> set k then Some (fst (fst res)) else fst mo,
       if GroupEnd \<in> set k then Some (snd (fst res)) else snd mo), snd res)"

section \<open>Evaluating the character functions\<close>

lemma lower_char_Char:
  "lower_char (Char b0 b1 b2 b3 b4 b5 b6 b7) =
     (if is_upper (Char b0 b1 b2 b3 b4 b5 b6 b7) then Char b0 b1 b2 b3 b4 True b6 b7
      else Char b0 b1 b2 b3 b4 b5 b6 b7)"
  by (cases b0; cases b1; cases b2; cases b3; cases b4; cases b5; cases b6; cases b7;
      simp add: lower_char_def is_upper_def char_of_def bit_Suc_0_iff)

lemma upper_char_Char:
  "upper_char (Char b0 b1 b2 b3 b4 b5 b6 b7) =
     (let n = (of_char (Char b0 b1 b2 b3 b4 b5 b6 b7) :: nat)
      in if (97 \<le> n \<and> n \<le> 122) \<or> (224 \<le> n \<and> n \<le> 254 \<and> n \<noteq> 247)
         then Char b0 b1 b2 b3 b4 False b6 b7 else Char b0 b1 b2 b3 b4 b5 b6 b7)"
  by (cases b0; cases b1; cases b2; cases b3; cases b4; cases b5; cases b6; cases b7;
      simp add: upper_char_def char_of_def bit_Suc_0_iff)

lemmas char_eval = lower_char_Char upper_char_Char title_char_def is_upper_def is_lower_def is_cased_def
  is_space_def is_digit_def

section \<open>The classifier\<close>

lemma analyze_loop_append:
  "analyze_loop db ingredient_names acc = acc @ map (analysis db) ingredient_names"
  by (induction ingredient_names arbitrary: acc) simp_all

lemma analyze_ingredients_map:
  "analyze_ingredients db ingredient_names = map (analysis db) ingredient_names"
  by (simp add: analyze_ingredients_def analyze_loop_append)

lemma find_sample_first:
  "i < length table \<Longrightarrow>
   str_in (fst (table ! i)) t \<or> str_in t (fst (table ! i)) \<Longrightarrow>
   \<forall>j<i. \<not> (str_in (fst (table ! j)) t \<or> str_in t (fst (table ! j))) \<Longrightarrow>
   find_sample table t = Some (snd (table ! i))"
proof (induction table arbitrary: i)
  case Nil
  then show ?case by simp
next
  case (Cons e table)
  obtain key ing where e: "e = (key, ing)" by (cases e)
  show ?case
  proof (cases i)
    case 0
    with Cons.prems e show ?thesis by simp
  next
    case (Suc i')
    from Cons.prems(3) Suc have miss: "\<not> (str_in key t \<or> str_in t key)"
      using e by (metis fst_conv nth_Cons_0 zero_less_Suc)
    have "find_sample table t = Some (snd (table ! i'))"
    proof (rule Cons.IH)
      show "i' < length table" using Cons.prems(1) Suc by simp
      show "str_in (fst (table ! i')) t \<or> str_in t (fst (table ! i'))"
        using Cons.prems(2) Suc by simp
      show "\<forall>j<i'. \<not> (str_in (fst (table ! j)) t \<or> str_in t (fst (table ! j)))"
      proof (intro allI impI)
        fix j assume "j < i'"
        then have "Suc j < i" using Suc by simp
        with Cons.prems(3) show "\<not> (str_in (fst (table ! j)) t \<or> str_in t (fst (table ! j)))"
          by fastforce
      qed
    qed
    with miss e Suc show ?thesis by simp
  qed
qed

lemma find_sample_None:
  "(find_sample table t = None) =
     (\<forall>(key, ing) \<in> set table. \<not> str_in key t \<and> \<not> str_in t key)"
proof (induction table)
  case Nil
  show ?case by simp
next
  case (Cons e table)
  obtain key ing where e: "e = (key, ing)" by (cases e)
  show ?case using Cons.IH by (simp add: e)
qed

lemma str_in_Nil [simp]: "str_in [] s"
  by (cases s) simp_all

text \<open>
  Claim C3. For every sequence of ingredient names and every state of the store,
  \<open>analyze_ingredients\<close> returns exactly one verdict per name, and the verdict at
  position \<open>i\<close> is the one the loop body computes from the name at position \<open>i\<close>.
\<close>
theorem analyze_ingredients_one_verdict_per_token:
  "length (analyze_ingredients db ingredient_names) = length ingredient_names \<and>
   (\<forall>i < length ingredient_names.
      analyze_ingredients db ingredient_names ! i = analysis db (ingredient_names ! i))"
  by (simp add: analyze_ingredients_map)

theorem analyze_ingredients_one_verdict_per_token_witness:
  "(1::nat) < length [''Sugar'', ''xyzzyfoo''] \<and>
   length (analyze_ingredients None [''Sugar'', ''xyzzyfoo'']) = 2 \<and>
   analyze_ingredients None [''Sugar'', ''xyzzyfoo''] ! 1 = analysis None ''xyzzyfoo''"
  using analyze_ingredients_one_verdict_per_token [of None "[''Sugar'', ''xyzzyfoo'']"]
  by simp

text \<open>
  Claim C10. When the store pass yields nothing and the lowercased, trimmed name is
  empty, the fallback loop stops at the first entry of the table, Water: the empty string
  is a substring of every key. The verdict has confidence 0.85, so the branch for unknown
  ingredients, with its confidence 0.3, is not taken for such a name.
\<close>
theorem empty_token_matches_first_entry:
  "db_lookup db (strip (lower tok)) = None \<Longrightarrow> strip (lower tok) = [] \<Longrightarrow>
   analysis db tok =
     \<lparr>name = ''Water'', risk_level = ''safe'',
      description = ''Essential nutrient, completely safe for consumption'',
      banned_in = [], sources = [''WHO'', ''FDA''], confidence = 0.85\<rparr>
   \<and> confidence (analysis db tok) \<noteq> 0.3"
  by (simp add: analysis_def SAMPLE_INGREDIENTS_def get_or_def)

theorem empty_token_matches_first_entry_witness:
  "db_lookup None (strip (lower ''  '')) = None \<and> strip (lower ''  '') = [] \<and>
   analysis None ''  '' =
     \<lparr>name = ''Water'', risk_level = ''safe'',
      description = ''Essential nutrient, completely safe for consumption'',
      banned_in = [], sources = [''WHO'', ''FDA''], confidence = 0.85\<rparr>"
proof -
  have a: "db_lookup None (strip (lower ''  '')) = None"
    by (simp add: db_lookup_def)
  have b: "strip (lower ''  '') = []"
    by (simp add: strip_def lower_def char_eval)
  from empty_token_matches_first_entry [OF a b] a b show ?thesis by simp
qed


text \<open>
  Claim C1. When the store pass yields nothing, the fallback loop walks the table in its
  order and stops at the first entry whose key is a substring of the lowercased, trimmed
  name or has it as a substring. The verdict takes that entry's name, risk level and
  description, its \<open>banned_in\<close> and \<open>sources\<close> (empty where the entry has none), and
  confidence 0.85. For the name \<open>red dye 40\<close> the risk level is \<open>banned\<close> and
  \<open>banned_in\<close> maps \<open>EU\<close> to \<open>True\<close>.
\<close>
theorem fallback_lookup_first_match:
  "(\<forall>tok i.
      db_lookup db (strip (lower tok)) = None \<and>
      i < length SAMPLE_INGREDIENTS \<and>
      (str_in (fst (SAMPLE_INGREDIENTS ! i)) (strip (lower tok)) \<or>
       str_in (strip (lower tok)) (fst (SAMPLE_INGREDIENTS ! i))) \<and>
      (\<forall>j<i. \<not> (str_in (fst (SAMPLE_INGREDIENTS ! j)) (strip (lower tok)) \<or>
                 str_in (strip (lower tok)) (fst (SAMPLE_INGREDIENTS ! j))))
      \<longrightarrow>
      analysis db tok =
        \<lparr>name = doc_name (snd (SAMPLE_INGREDIENTS ! i)),
         risk_level = doc_risk_level (snd (SAMPLE_INGREDIENTS ! i)),
         description = doc_description (snd (SAMPLE_INGREDIENTS ! i)),
         banned_in = get_or (doc_banned_in (snd (SAMPLE_INGREDIENTS ! i))) [],
         sources = get_or (doc_sources (snd (SAMPLE_INGREDIENTS ! i))) [],
         confidence = 0.85\<rparr>)
   \<and>
   (db_lookup db (strip (lower ''red dye 40'')) = None \<longrightarrow>
      risk_level (analysis db ''red dye 40'') = ''banned'' \<and>
      map_of (banned_in (analysis db ''red dye 40'')) ''EU'' = Some True \<and>
      confidence (analysis db ''red dye 40'') = 0.85)"
proof (intro conjI allI impI)
  fix tok i
  assume h: "db_lookup db (strip (lower tok)) = None \<and>
      i < length SAMPLE_INGREDIENTS \<and>
      (str_in (fst (SAMPLE_INGREDIENTS ! i)) (strip (lower tok)) \<or>
       str_in (strip (lower tok)) (fst (SAMPLE_INGREDIENTS ! i))) \<and>
      (\<forall>j<i. \<not> (str_in (fst (SAMPLE_INGREDIENTS ! j)) (strip (lower tok)) \<or>
                 str_in (strip (lower tok)) (fst (SAMPLE_INGREDIENTS ! j))))"
  then have "find_sample SAMPLE_INGREDIENTS (strip (lower tok)) = Some (snd (SAMPLE_INGREDIENTS ! i))"
    by (intro find_sample_first) blast+
  with h show "analysis db tok =
        \<lparr>name = doc_name (snd (SAMPLE_INGREDIENTS ! i)),
         risk_level = doc_risk_level (snd (SAMPLE_INGREDIENTS ! i)),
         description = doc_description (snd (SAMPLE_INGREDIENTS ! i)),
         banned_in = get_or (doc_banned_in (snd (SAMPLE_INGREDIENTS ! i))) [],
         sources = get_or (doc_sources (snd (SAMPLE_INGREDIENTS ! i))) [],
         confidence = 0.85\<rparr>"
    by (simp add: analysis_def)
next
  assume miss: "db_lookup db (strip (lower ''red dye 40'')) = None"
  have t: "strip (lower ''red dye 40'') = ''red dye 40''"
    by (simp add: strip_def lower_def char_eval)
  have f: "map_option doc_name (find_sample SAMPLE_INGREDIENTS ''red dye 40'') = Some ''Red Dye 40''"
    by (simp add: SAMPLE_INGREDIENTS_def)
  have a: "analysis db ''red dye 40'' =
     \<lparr>name = ''Red Dye 40'', risk_level = ''banned'',
      description = ''Artificial coloring banned in several countries due to hyperactivity concerns'',
      banned_in = [(''EU'', True), (''Norway'', True), (''Austria'', True)],
      sources = [''European Food Safety Authority'', ''Center for Science in Public Interest''],
      confidence = 0.85\<rparr>"
    using miss unfolding analysis_def Let_def t
    by (simp add: SAMPLE_INGREDIENTS_def get_or_def)
  show "risk_level (analysis db ''red dye 40'') = ''banned''" by (simp add: a)
  show "map_of (banned_in (analysis db ''red dye 40'')) ''EU'' = Some True" by (simp add: a)
  show "confidence (analysis db ''red dye 40'') = 0.85" by (simp add: a)
qed

theorem fallback_lookup_first_match_witness:
  "db_lookup None (strip (lower ''Sea Salt'')) = None \<and>
   (2::nat) < length SAMPLE_INGREDIENTS \<and>
   str_in (fst (SAMPLE_INGREDIENTS ! 2)) (strip (lower ''Sea Salt'')) \<and>
   \<not> (str_in (fst (SAMPLE_INGREDIENTS ! 0)) (strip (lower ''Sea Salt'')) \<or>
      str_in (strip (lower ''Sea Salt'')) (fst (SAMPLE_INGREDIENTS ! 0))) \<and>
   \<not> (str_in (fst (SAMPLE_INGREDIENTS ! 1)) (strip (lower ''Sea Salt'')) \<or>
      str_in (strip (lower ''Sea Salt'')) (fst (SAMPLE_INGREDIENTS ! 1))) \<and>
   analysis None ''Sea Salt'' =
     \<lparr>name = ''Salt'', risk_level = ''safe'',
      description = ''Sodium chloride, essential mineral when consumed in moderation'',
      banned_in = [], sources = [''FDA''], confidence = 0.85\<rparr>"
proof -
  have t: "strip (lower ''Sea Salt'') = ''sea salt''"
    by (simp add: strip_def lower_def char_eval)
  have a: "db_lookup None (strip (lower ''Sea Salt'')) = None"
    by (simp add: db_lookup_def)
  have b: "(2::nat) < length SAMPLE_INGREDIENTS"
    by (simp add: SAMPLE_INGREDIENTS_def)
  have e: "SAMPLE_INGREDIENTS ! 2 =
     (''salt'', \<lparr>doc_name = ''Salt'', doc_risk_level = ''safe'',
        doc_description = ''Sodium chloride, essential mineral when consumed in moderation'',
        doc_banned_in = None, doc_sources = Some [''FDA'']\<rparr>)"
    by (simp add: SAMPLE_INGREDIENTS_def)
  have c: "str_in (fst (SAMPLE_INGREDIENTS ! 2)) (strip (lower ''Sea Salt''))"
    unfolding t e by simp
  have d: "\<forall>j<2. \<not> (str_in (fst (SAMPLE_INGREDIENTS ! j)) (strip (lower ''Sea Salt'')) \<or>
              str_in (strip (lower ''Sea Salt'')) (fst (SAMPLE_INGREDIENTS ! j)))"
    unfolding t by (simp add: numeral_2_eq_2 All_less_Suc SAMPLE_INGREDIENTS_def)
  from fallback_lookup_first_match [of None] a b c d
  have "analysis None ''Sea Salt'' =
        \<lparr>name = doc_name (snd (SAMPLE_INGREDIENTS ! 2)),
         risk_level = doc_risk_level (snd (SAMPLE_INGREDIENTS ! 2)),
         description = doc_description (snd (SAMPLE_INGREDIENTS ! 2)),
         banned_in = get_or (doc_banned_in (snd (SAMPLE_INGREDIENTS ! 2))) [],
         sources = get_or (doc_sources (snd (SAMPLE_INGREDIENTS ! 2))) [],
         confidence = 0.85\<rparr>"
    by blast
  then have "analysis None ''Sea Salt'' =
     \<lparr>name = ''Salt'', risk_level = ''safe'',
      description = ''Sodium chloride, essential mineral when consumed in moderation'',
      banned_in = [], sources = [''FDA''], confidence = 0.85\<rparr>"
    unfolding e by (simp add: get_or_def)
  moreover have "\<not> (str_in (fst (SAMPLE_INGREDIENTS ! 0)) (strip (lower ''Sea Salt'')) \<or>
      str_in (strip (lower ''Sea Salt'')) (fst (SAMPLE_INGREDIENTS ! 0)))"
    using d by simp
  moreover have "\<not> (str_in (fst (SAMPLE_INGREDIENTS ! 1)) (strip (lower ''Sea Salt'')) \<or>
      str_in (strip (lower ''Sea Salt'')) (fst (SAMPLE_INGREDIENTS ! 1)))"
    using d by simp
  ultimately show ?thesis using a b c by blast
qed

text \<open>
  Claim C2 says that every name without a substring relation to a key of the table gets
  the default verdict. The store pass comes first: a store that answers for the name
  \<open>xyzzyfoo\<close> yields that document with confidence 0.95, although no key of the table is
  related to the name.
\<close>
theorem unknown_ingredient_default_counterexample:
  "list_all (\<lambda>(key, ing). \<not> str_in key (strip (lower ''xyzzyfoo'')) \<and>
                          \<not> str_in (strip (lower ''xyzzyfoo'')) key) SAMPLE_INGREDIENTS \<and>
   confidence (analysis
     (Some \<lparr>find_one = \<lambda>q. Inr (Some \<lparr>doc_name = ''Xyzzyfoo Gum'', doc_risk_level = ''caution'',
                                         doc_description = ''Thickener under review'',
                                         doc_banned_in = None, doc_sources = None\<rparr>),
            insert_one = \<lambda>doc. Inr ()\<rparr>)
     ''xyzzyfoo'') = 0.95 \<and>
   confidence (analysis
     (Some \<lparr>find_one = \<lambda>q. Inr (Some \<lparr>doc_name = ''Xyzzyfoo Gum'', doc_risk_level = ''caution'',
                                         doc_description = ''Thickener under review'',
                                         doc_banned_in = None, doc_sources = None\<rparr>),
            insert_one = \<lambda>doc. Inr ()\<rparr>)
     ''xyzzyfoo'') \<noteq> 0.3 \<and>
   risk_level (analysis
     (Some \<lparr>find_one = \<lambda>q. Inr (Some \<lparr>doc_name = ''Xyzzyfoo Gum'', doc_risk_level = ''caution'',
                                         doc_description = ''Thickener under review'',
                                         doc_banned_in = None, doc_sources = None\<rparr>),
            insert_one = \<lambda>doc. Inr ()\<rparr>)
     ''xyzzyfoo'') = ''caution''"
proof -
  have t: "strip (lower ''xyzzyfoo'') = ''xyzzyfoo''"
    by (simp add: strip_def lower_def char_eval)
  have "list_all (\<lambda>(key, ing). \<not> str_in key ''xyzzyfoo'' \<and> \<not> str_in ''xyzzyfoo'' key)
          SAMPLE_INGREDIENTS"
    by (simp add: SAMPLE_INGREDIENTS_def)
  then show ?thesis
    unfolding t by (simp add: analysis_def db_lookup_def t)
qed

text \<open>
  Claim C2, amended. When the store pass yields nothing and no key of the table is a
  substring of the lowercased, trimmed name or has it as a substring, the verdict is the
  default one: risk level \<open>safe\<close>, the fixed description, empty \<open>banned_in\<close> and
  \<open>sources\<close>, confidence 0.3, and for a name without U+00B5 and U+00FF the name
  title-cased. With no answer from the store the name \<open>xyzzyfoo\<close> gets this verdict.
\<close>
theorem unknown_ingredient_default:
  "(\<forall>tok.
      db_lookup db (strip (lower tok)) = None \<and>
      (\<forall>(key, ing) \<in> set SAMPLE_INGREDIENTS.
          \<not> str_in key (strip (lower tok)) \<and> \<not> str_in (strip (lower tok)) key)
      \<longrightarrow>
      risk_level (analysis db tok) = ''safe'' \<and>
      confidence (analysis db tok) = 0.3 \<and>
      description (analysis db tok) =
        ''Ingredient not found in database. Generally considered safe.'' \<and>
      banned_in (analysis db tok) = [] \<and>
      sources (analysis db tok) = [] \<and>
      (CHR 0xB5 \<notin> set tok \<and> CHR 0xFF \<notin> set tok \<longrightarrow> name (analysis db tok) = title tok))
   \<and>
   (db_lookup db (strip (lower ''xyzzyfoo'')) = None \<longrightarrow>
      analysis db ''xyzzyfoo'' =
        \<lparr>name = ''Xyzzyfoo'', risk_level = ''safe'',
         description = ''Ingredient not found in database. Generally considered safe.'',
         banned_in = [], sources = [], confidence = 0.3\<rparr>)"
proof (intro conjI allI impI)
  fix tok
  assume h: "db_lookup db (strip (lower tok)) = None \<and>
      (\<forall>(key, ing) \<in> set SAMPLE_INGREDIENTS.
          \<not> str_in key (strip (lower tok)) \<and> \<not> str_in (strip (lower tok)) key)"
  then have "find_sample SAMPLE_INGREDIENTS (strip (lower tok)) = None"
    by (simp add: find_sample_None)
  with h have a: "analysis db tok =
        \<lparr>name = title tok, risk_level = ''safe'',
         description = ''Ingredient not found in database. Generally considered safe.'',
         banned_in = [], sources = [], confidence = 0.3\<rparr>"
    by (simp add: analysis_def)
  show "risk_level (analysis db tok) = ''safe''" by (simp add: a)
  show "confidence (analysis db tok) = 0.3" by (simp add: a)
  show "description (analysis db tok) =
        ''Ingredient not found in database. Generally considered safe.''" by (simp add: a)
  show "banned_in (analysis db tok) = []" by (simp add: a)
  show "sources (analysis db tok) = []" by (simp add: a)
  show "name (analysis db tok) = title tok" by (simp add: a)
next
  assume miss: "db_lookup db (strip (lower ''xyzzyfoo'')) = None"
  have t: "strip (lower ''xyzzyfoo'') = ''xyzzyfoo''"
    by (simp add: strip_def lower_def char_eval)
  have f: "find_sample SAMPLE_INGREDIENTS ''xyzzyfoo'' = None"
    by (simp add: SAMPLE_INGREDIENTS_def)
  have n: "title ''xyzzyfoo'' = ''Xyzzyfoo''"
    by (simp add: title_def char_eval)
  show "analysis db ''xyzzyfoo'' =
        \<lparr>name = ''Xyzzyfoo'', risk_level = ''safe'',
         description = ''Ingredient not found in database. Generally considered safe.'',
         banned_in = [], sources = [], confidence = 0.3\<rparr>"
    using miss unfolding analysis_def Let_def t by (simp add: f n)
qed

theorem unknown_ingredient_default_witness:
  "db_lookup None (strip (lower ''Guar Gum'')) = None \<and>
   list_all (\<lambda>(key, ing). \<not> str_in key (strip (lower ''Guar Gum'')) \<and>
                          \<not> str_in (strip (lower ''Guar Gum'')) key) SAMPLE_INGREDIENTS \<and>
   CHR 0xB5 \<notin> set ''Guar Gum'' \<and> CHR 0xFF \<notin> set ''Guar Gum'' \<and>
   analysis None ''Guar Gum'' =
        \<lparr>name = ''Guar Gum'', risk_level = ''safe'',
         description = ''Ingredient not found in database. Generally considered safe.'',
         banned_in = [], sources = [], confidence = 0.3\<rparr>"
proof -
  have t: "strip (lower ''Guar Gum'') = ''guar gum''"
    by (simp add: strip_def lower_def char_eval)
  have a: "db_lookup None (strip (lower ''Guar Gum'')) = None"
    by (simp add: db_lookup_def)
  have b: "\<forall>(key, ing) \<in> set SAMPLE_INGREDIENTS.
       \<not> str_in key (strip (lower ''Guar Gum'')) \<and> \<not> str_in (strip (lower ''Guar Gum'')) key"
    unfolding t by (simp add: SAMPLE_INGREDIENTS_def)
  have c: "CHR 0xB5 \<notin> set ''Guar Gum'' \<and> CHR 0xFF \<notin> set ''Guar Gum''"
    by simp
  have n: "title ''Guar Gum'' = ''Guar Gum''"
    by (simp add: title_def char_eval)
  from unknown_ingredient_default [of None] a b c
  have "risk_level (analysis None ''Guar Gum'') = ''safe'' \<and>
      confidence (analysis None ''Guar Gum'') = 0.3 \<and>
      description (analysis None ''Guar Gum'') =
        ''Ingredient not found in database. Generally considered safe.'' \<and>
      banned_in (analysis None ''Guar Gum'') = [] \<and>
      sources (analysis None ''Guar Gum'') = [] \<and>
      name (analysis None ''Guar Gum'') = title ''Guar Gum''"
    by blast
  then have "analysis None ''Guar Gum'' =
        \<lparr>name = ''Guar Gum'', risk_level = ''safe'',
         description = ''Ingredient not found in database. Generally considered safe.'',
         banned_in = [], sources = [], confidence = 0.3\<rparr>"
    by (cases "analysis None ''Guar Gum''") (simp add: n)
  with a b c show ?thesis by (simp add: list_all_iff)
qed

section \<open>Properties of the string functions\<close>

lemma is_upper_bit5: "\<not> is_upper (Char b0 b1 b2 b3 b4 True b6 b7)"
  by (cases b0; cases b1; cases b2; cases b3; cases b4; cases b6; cases b7;
      simp add: is_upper_def)

lemma lower_char_idem: "lower_char (lower_char c) = lower_char c"
  by (cases c) (simp add: lower_char_Char is_upper_bit5)

lemma lower_char_fixed_iff: "(lower_char c = c) = (\<not> is_upper c)"
  by (cases c) (auto simp: lower_char_Char is_upper_bit5)

lemma lower_idem: "lower (lower s) = lower s"
  by (simp add: lower_def lower_char_idem)

lemma set_strip: "set (strip s) \<subseteq> set s"
proof -
  have "set (strip s) = set (dropWhile is_space (rev (dropWhile is_space s)))"
    by (simp add: strip_def)
  also have "\<dots> \<subseteq> set (rev (dropWhile is_space s))"
    by (meson set_dropWhileD subsetI)
  also have "\<dots> \<subseteq> set s"
    using set_dropWhileD by fastforce
  finally show ?thesis .
qed

lemma split_not_Nil: "split d s \<noteq> []"
  by (induction s) (auto split: list.splits)

lemma set_split: "p \<in> set (split d s) \<Longrightarrow> set p \<subseteq> set s"
proof (induction s arbitrary: p)
  case Nil
  then show ?case by simp
next
  case (Cons c cs)
  show ?case
  proof (cases "c = d")
    case True
    with Cons show ?thesis by auto
  next
    case False
    obtain q qs where q: "split d cs = q # qs"
      using split_not_Nil by (cases "split d cs") auto
    with False Cons.prems have "p = c # q \<or> p \<in> set qs" by simp
    then show ?thesis
    proof
      assume "p = c # q"
      moreover have "set q \<subseteq> set cs" using Cons.IH q by simp
      ultimately show ?thesis by auto
    next
      assume "p \<in> set qs"
      then have "set p \<subseteq> set cs" using Cons.IH q by simp
      then show ?thesis by auto
    qed
  qed
qed

lemma dropWhile_id: "xs = [] \<or> \<not> P (hd xs) \<Longrightarrow> dropWhile P xs = xs"
  by (cases xs) auto

lemma dropWhile_last:
  "xs \<noteq> [] \<Longrightarrow> \<not> P (last xs) \<Longrightarrow>
   dropWhile P xs \<noteq> [] \<and> last (dropWhile P xs) = last xs"
  by (induction xs) (auto split: if_splits)

lemma strip_idem: "strip (strip s) = strip s"
proof -
  define u where "u = dropWhile is_space s"
  define v where "v = dropWhile is_space (rev u)"
  have t: "strip s = rev v" by (simp add: strip_def u_def v_def)
  have u: "u = [] \<or> \<not> is_space (hd u)"
    unfolding u_def by (metis hd_dropWhile)
  have v: "v = [] \<or> \<not> is_space (hd v)"
    unfolding v_def by (metis hd_dropWhile)
  show ?thesis
  proof (cases "u = []")
    case True
    then have "v = []" by (simp add: v_def)
    with t have "strip s = []" by simp
    moreover have "strip [] = []" by (simp add: strip_def)
    ultimately show ?thesis by simp
  next
    case False
    with u have "\<not> is_space (last (rev u))" by (simp add: last_rev)
    with False have "dropWhile is_space (rev u) \<noteq> [] \<and>
        last (dropWhile is_space (rev u)) = last (rev u)"
      by (intro dropWhile_last) simp_all
    then have vne: "v \<noteq> []" and lastv: "last v = hd u"
      using False by (simp_all add: v_def last_rev)
    have "hd (rev v) = hd u" using vne lastv by (simp add: hd_rev)
    with u False have c1: "dropWhile is_space (rev v) = rev v"
      by (intro dropWhile_id) simp
    have c2: "dropWhile is_space v = v"
      using v by (simp add: dropWhile_id)
    have "strip (rev v) = rev v"
      unfolding strip_def by (simp add: c1 c2)
    then show ?thesis by (simp only: t)
  qed
qed

lemma startswith_iff: "startswith s p = (take (length p) s = p)"
proof (induction s p rule: startswith.induct)
  case (1 s)
  show ?case by simp
next
  case (2 p ps)
  show ?case by simp
next
  case (3 c cs p ps)
  then show ?case by auto
qed

section \<open>Properties of the matcher\<close>

lemma run_marks_suffix:
  "run k s m = Some (m', r) \<Longrightarrow> suffix s s0 \<Longrightarrow> suffix (fst m) s0 \<Longrightarrow> suffix (fst m') s0"
proof (induction k s m arbitrary: m' r rule: run.induct)
  case (1 s m)
  then show ?case by simp
next
  case (2 k s gs ge)
  then show ?case by simp
next
  case (3 k s gs ge)
  then show ?case by simp
next
  case (4 k s m)
  then show ?case by simp
next
  case (5 p k m)
  then show ?case by simp
next
  case (6 p k x xs m)
  then show ?case by (auto split: if_splits dest: suffix_ConsD)
next
  case (7 k s m)
  then show ?case by (auto split: if_splits)
next
  case (8 a b k s m)
  then show ?case by simp
next
  case (9 a b k s m)
  then show ?case by (auto split: option.splits)
next
  case (10 a k s m)
  then show ?case by (auto split: option.splits)
next
  case (11 p k m)
  then show ?case by simp
next
  case (12 p k x xs m)
  then show ?case by (auto split: if_splits option.splits dest: suffix_ConsD)
next
  case (13 p k m)
  then show ?case by simp
next
  case (14 p k x xs m)
  then show ?case by (auto split: if_splits option.splits dest: suffix_ConsD)
qed

lemma match_here_group_chars:
  assumes "match_here p s = Some (g, r)"
  shows "set g \<subseteq> set s"
proof -
  from assms obtain gs ge where
    run: "run [Re (before p), GroupStart, Re (group p), GroupEnd, Re (after p)] s (s, s) = Some ((gs, ge), r)"
    and g: "g = take (length gs - length ge) gs"
    by (auto simp: match_here_def split: option.splits)
  from run_marks_suffix [OF run, of s] have "suffix gs s" by simp
  then have "set gs \<subseteq> set s" by (rule set_mono_suffix)
  moreover have "set g \<subseteq> set gs" unfolding g by (rule set_take_subset)
  ultimately show ?thesis by blast
qed

lemma re_search_group_chars:
  "re_search p s = Some (g, r) \<Longrightarrow> set g \<subseteq> set s"
proof (induction s)
  case Nil
  then show ?case using match_here_group_chars [of p "[]" g r] by simp
next
  case (Cons c cs)
  show ?case
  proof (cases "match_here p (c # cs)")
    case None
    with Cons show ?thesis by auto
  next
    case (Some m)
    with Cons.prems have "match_here p (c # cs) = Some (g, r)" by simp
    then show ?thesis by (rule match_here_group_chars)
  qed
qed

lemma run_lits:
  "run (Re (lits w) # k) s m = (if startswith s w then run k (drop (length w) s) m else None)"
proof (induction w arbitrary: s)
  case Nil
  show ?case by (simp add: lits_def)
next
  case (Cons c w)
  have IH: "run (Re (seqs (map lit w)) # k) xs m =
      (if startswith xs w then run k (drop (length w) xs) m else None)" for xs
    using Cons.IH [of xs] by (simp add: lits_def)
  show ?case
  proof (cases s)
    case Nil
    then show ?thesis by (simp add: lits_def lit_def)
  next
    case (Cons x xs)
    have "run (Re (lits (c # w)) # k) (x # xs) m =
            (if x = c then run (Re (seqs (map lit w)) # k) xs m else None)"
      by (simp add: lits_def lit_def)
    with IH [of xs] Cons show ?thesis by simp
  qed
qed

lemma run_litis:
  "run (Re (litis w) # k) s m =
     (if startswith (lower s) (lower w) then run k (drop (length w) s) m else None)"
proof (induction w arbitrary: s)
  case Nil
  show ?case by (simp add: litis_def lower_def)
next
  case (Cons c w)
  have IH: "run (Re (seqs (map liti w)) # k) xs m =
      (if startswith (lower xs) (lower w) then run k (drop (length w) xs) m else None)" for xs
    using Cons.IH [of xs] by (simp add: litis_def)
  show ?case
  proof (cases s)
    case Nil
    then show ?thesis by (simp add: litis_def liti_def lower_def)
  next
    case (Cons x xs)
    have "run (Re (litis (c # w)) # k) (x # xs) m =
            (if lower_char x = lower_char c then run (Re (seqs (map liti w)) # k) xs m else None)"
      by (simp add: litis_def liti_def)
    with IH [of xs] Cons show ?thesis by (simp add: lower_def)
  qed
qed

lemma re_search_None:
  assumes "\<And>t r. match_here p t = Some r \<Longrightarrow> startswith (lower t) w"
  shows "\<not> str_in w (lower s) \<Longrightarrow> re_search p s = None"
proof (induction s)
  case Nil
  then have "w \<noteq> []" by (simp add: lower_def)
  have "match_here p [] = None"
  proof (cases "match_here p []")
    case (Some r)
    from assms [OF this] \<open>w \<noteq> []\<close> show ?thesis by (cases w) (simp_all add: lower_def)
  qed simp
  then show ?case by simp
next
  case (Cons c cs)
  then have a: "\<not> startswith (lower (c # cs)) w" and b: "\<not> str_in w (lower cs)"
    by (simp_all add: lower_def)
  have "match_here p (c # cs) = None"
  proof (cases "match_here p (c # cs)")
    case (Some r)
    from assms [OF this] a show ?thesis by simp
  qed simp
  with Cons.IH [OF b] show ?case by simp
qed

lemma ingredients_header:
  assumes "match_here ingredients_pattern t = Some r"
  shows "startswith (lower t) ''ingredient''"
proof -
  have l: "lower ''ingredient'' = ''ingredient''"
    by (simp add: lower_def char_eval)
  from assms show ?thesis
    unfolding match_here_def ingredients_pattern_def
    by (simp add: run_litis l split: if_splits)
qed

lemma no_header_no_match:
  "\<not> str_in ''ingredient'' (lower text) \<Longrightarrow> re_search ingredients_pattern (lower text) = None"
  using re_search_None [of ingredients_pattern "''ingredient''" "lower text"] ingredients_header
  by (simp add: lower_idem)

lemmas regex_eval = match_here_def lits_def litis_def lit_def liti_def Plus_def LazyPlus_def
  ws_def colon_def digits_def decimal_def any_char_def group1_def

lemma extract_loop_no_match:
  "\<forall>(nutrient, pat) \<in> set ps. re_search pat (lower text) = None \<Longrightarrow>
   extract_loop ps text info = info"
proof (induction ps arbitrary: info)
  case Nil
  show ?case by simp
next
  case (Cons e ps)
  obtain nutrient pat where e: "e = (nutrient, pat)" by (cases e)
  from Cons.prems e have "re_search pat (lower text) = None" by simp
  moreover from Cons.prems have "\<forall>(nutrient, pat) \<in> set ps. re_search pat (lower text) = None"
    by simp
  ultimately show ?case using Cons.IH e by simp
qed

lemma db_lookup_insert_one:
  "db_lookup (Some (d\<lparr>insert_one := w\<rparr>)) q = db_lookup (Some d) q"
  by (simp add: db_lookup_def)

lemma analysis_insert_one:
  "analysis (Some (d\<lparr>insert_one := w\<rparr>)) n = analysis (Some d) n"
  by (simp add: analysis_def db_lookup_insert_one)

lemma analysis_unreadable:
  "db = None \<or> (\<exists>d. db = Some d \<and> (\<forall>q. isl (find_one d q))) \<Longrightarrow>
   analysis db n = analysis None n"
proof -
  assume h: "db = None \<or> (\<exists>d. db = Some d \<and> (\<forall>q. isl (find_one d q)))"
  have "db_lookup db q = None" for q
  proof (cases db)
    case None
    then show ?thesis by (simp add: db_lookup_def)
  next
    case (Some d)
    with h have "isl (find_one d q)" by simp
    then show ?thesis using Some by (cases "find_one d q") (simp_all add: db_lookup_def)
  qed
  moreover have "db_lookup None q = None" for q by (simp add: db_lookup_def)
  ultimately show ?thesis by (simp add: analysis_def)
qed

section \<open>The parser\<close>

text \<open>
  Claim C6. For every text, every entry that \<open>parse_ingredients_from_text\<close> returns has
  at least three characters after trimming. When the header is found, the result is the
  captured span split at the commas, each piece trimmed, and the pieces of two characters
  or fewer dropped, in the order of the pieces.
\<close>
theorem parse_ingredients_tokens_at_least_three:
  "(\<forall>tok \<in> set (parse_ingredients_from_text text). 3 \<le> length (strip tok)) \<and>
   (\<forall>m. re_search ingredients_pattern (lower text) = Some m \<longrightarrow>
      parse_ingredients_from_text text =
        filter (\<lambda>piece. 2 < length piece) (map strip (split CHR '','' (group1 m))))"
proof (intro conjI ballI allI impI)
  fix tok
  assume "tok \<in> set (parse_ingredients_from_text text)"
  then obtain piece where "tok = strip piece" and "2 < length tok"
    by (auto simp: parse_ingredients_from_text_def split: option.splits)
  then show "3 \<le> length (strip tok)" by (simp add: strip_idem)
next
  fix m
  assume "re_search ingredients_pattern (lower text) = Some m"
  then show "parse_ingredients_from_text text =
        filter (\<lambda>piece. 2 < length piece) (map strip (split CHR '','' (group1 m)))"
    by (simp add: parse_ingredients_from_text_def)
qed

lemma parse_example:
  "parse_ingredients_from_text ''Ingredients: ab, Sugar, x , Sea Salt'' = [''sugar'', ''sea salt'']"
  by (simp add: parse_ingredients_from_text_def ingredients_pattern_def regex_eval
      lower_def strip_def char_eval)

theorem parse_ingredients_tokens_at_least_three_witness:
  "parse_ingredients_from_text ''Ingredients: ab, Sugar, x , Sea Salt'' = [''sugar'', ''sea salt''] \<and>
   3 \<le> length (strip ''sugar'') \<and> 3 \<le> length (strip ''sea salt'')"
  using parse_ingredients_tokens_at_least_three [of "''Ingredients: ab, Sugar, x , Sea Salt''"]
  by (simp add: parse_example)

section \<open>The header and the checked parser\<close>

lemma run_keeps_start:
  "run k s m = Some (m', r) \<Longrightarrow> GroupStart \<notin> set k \<Longrightarrow> fst m' = fst m"
proof (induction k s m arbitrary: m' r rule: run.induct)
  case (1 s m)
  then show ?case by simp
next
  case (2 k s gs ge)
  then show ?case by simp
next
  case (3 k s gs ge)
  then show ?case by simp
next
  case (4 k s m)
  then show ?case by simp
next
  case (5 p k m)
  then show ?case by simp
next
  case (6 p k x xs m)
  show ?case
  proof (cases "p x")
    case True
    with "6.prems" "6.IH" show ?thesis by simp
  next
    case False
    with "6.prems" show ?thesis by simp
  qed
next
  case (7 k s m)
  show ?case
  proof (cases "s = [] \<or> s = [CHR 0x0A]")
    case True
    with "7.prems" "7.IH" show ?thesis by simp
  next
    case False
    with "7.prems" show ?thesis by simp
  qed
next
  case (8 a b k s m)
  then show ?case by simp
next
  case (9 a b k s m)
  show ?case
  proof (cases "run (Re a # k) s m")
    case None
    with "9.prems" "9.IH"(2) show ?thesis by simp
  next
    case (Some res)
    with "9.prems" "9.IH"(1) show ?thesis by simp
  qed
next
  case (10 a k s m)
  show ?case
  proof (cases "run (Re a # k) s m")
    case None
    with "10.prems" "10.IH"(2) show ?thesis by simp
  next
    case (Some res)
    with "10.prems" "10.IH"(1) show ?thesis by simp
  qed
next
  case (11 p k m)
  then show ?case by simp
next
  case (12 p k x xs m)
  show ?case
  proof (cases "p x")
    case False
    with "12.prems" "12.IH"(3) show ?thesis by simp
  next
    case True
    show ?thesis
    proof (cases "run (Re (Star p) # k) xs m")
      case None
      with True "12.prems" "12.IH"(2) show ?thesis by simp
    next
      case (Some res)
      with True "12.prems" "12.IH"(1) show ?thesis by simp
    qed
  qed
next
  case (13 p k m)
  then show ?case by simp
next
  case (14 p k x xs m)
  show ?case
  proof (cases "run k (x # xs) m")
    case (Some res)
    with "14.prems" "14.IH"(1) show ?thesis by simp
  next
    case None
    show ?thesis
    proof (cases "p x")
      case True
      with None "14.prems" "14.IH"(2) show ?thesis by simp
    next
      case False
      with None "14.prems" show ?thesis by simp
    qed
  qed
qed

lemma run_keeps_end:
  "run k s m = Some (m', r) \<Longrightarrow> GroupEnd \<notin> set k \<Longrightarrow> snd m' = snd m"
proof (induction k s m arbitrary: m' r rule: run.induct)
  case (1 s m)
  then show ?case by simp
next
  case (2 k s gs ge)
  then show ?case by simp
next
  case (3 k s gs ge)
  then show ?case by simp
next
  case (4 k s m)
  then show ?case by simp
next
  case (5 p k m)
  then show ?case by simp
next
  case (6 p k x xs m)
  show ?case
  proof (cases "p x")
    case True
    with "6.prems" "6.IH" show ?thesis by simp
  next
    case False
    with "6.prems" show ?thesis by simp
  qed
next
  case (7 k s m)
  show ?case
  proof (cases "s = [] \<or> s = [CHR 0x0A]")
    case True
    with "7.prems" "7.IH" show ?thesis by simp
  next
    case False
    with "7.prems" show ?thesis by simp
  qed
next
  case (8 a b k s m)
  then show ?case by simp
next
  case (9 a b k s m)
  show ?case
  proof (cases "run (Re a # k) s m")
    case None
    with "9.prems" "9.IH"(2) show ?thesis by simp
  next
    case (Some res)
    with "9.prems" "9.IH"(1) show ?thesis by simp
  qed
next
  case (10 a k s m)
  show ?case
  proof (cases "run (Re a # k) s m")
    case None
    with "10.prems" "10.IH"(2) show ?thesis by simp
  next
    case (Some res)
    with "10.prems" "10.IH"(1) show ?thesis by simp
  qed
next
  case (11 p k m)
  then show ?case by simp
next
  case (12 p k x xs m)
  show ?case
  proof (cases "p x")
    case False
    with "12.prems" "12.IH"(3) show ?thesis by simp
  next
    case True
    show ?thesis
    proof (cases "run (Re (Star p) # k) xs m")
      case None
      with True "12.prems" "12.IH"(2) show ?thesis by simp
    next
      case (Some res)
      with True "12.prems" "12.IH"(1) show ?thesis by simp
    qed
  qed
next
  case (13 p k m)
  then show ?case by simp
next
  case (14 p k x xs m)
  show ?case
  proof (cases "run k (x # xs) m")
    case (Some res)
    with "14.prems" "14.IH"(1) show ?thesis by simp
  next
    case None
    show ?thesis
    proof (cases "p x")
      case True
      with None "14.prems" "14.IH"(2) show ?thesis by simp
    next
      case False
      with None "14.prems" show ?thesis by simp
    qed
  qed
qed



lemma lift_marks_Re [simp]: "lift_marks (Re a # k) mo = lift_marks k mo"
  by (simp add: lift_marks_def fun_eq_iff)

lemma lift_marks_Re2 [simp]: "lift_marks (Re a # Re b # k) mo = lift_marks k mo"
  by simp

lemma map_option_eqI:
  "(\<And>res. x = Some res \<Longrightarrow> f res = g res) \<Longrightarrow> map_option f x = map_option g x"
  by (cases x) simp_all

lemma run_opt_run:
  "run_opt k s mo = map_option (lift_marks k mo) (run k s m)"
proof (induction k s m arbitrary: mo rule: run.induct)
  case (1 s m)
  show ?case by (simp add: lift_marks_def)
next
  case (2 k s gs ge)
  obtain gso geo where mo: "mo = (gso, geo)" by (cases mo)
  have "run_opt (GroupStart # k) s mo = map_option (lift_marks k (Some s, geo)) (run k s (s, ge))"
    using "2.IH" [of "(Some s, geo)"] by (simp add: mo)
  also have "\<dots> = map_option (lift_marks (GroupStart # k) mo) (run k s (s, ge))"
  proof (rule map_option_eqI)
    fix res
    assume r: "run k s (s, ge) = Some res"
    obtain m' rr where res: "res = (m', rr)" by (cases res)
    have "GroupStart \<notin> set k \<Longrightarrow> fst m' = s"
      using run_keeps_start [of k s "(s, ge)" m' rr] r res by simp
    then show "lift_marks k (Some s, geo) res = lift_marks (GroupStart # k) mo res"
      by (auto simp: lift_marks_def res mo)
  qed
  finally show ?case by simp
next
  case (3 k s gs ge)
  obtain gso geo where mo: "mo = (gso, geo)" by (cases mo)
  have "run_opt (GroupEnd # k) s mo = map_option (lift_marks k (gso, Some s)) (run k s (gs, s))"
    using "3.IH" [of "(gso, Some s)"] by (simp add: mo)
  also have "\<dots> = map_option (lift_marks (GroupEnd # k) mo) (run k s (gs, s))"
  proof (rule map_option_eqI)
    fix res
    assume r: "run k s (gs, s) = Some res"
    obtain m' rr where res: "res = (m', rr)" by (cases res)
    have "GroupEnd \<notin> set k \<Longrightarrow> snd m' = s"
      using run_keeps_end [of k s "(gs, s)" m' rr] r res by simp
    then show "lift_marks k (gso, Some s) res = lift_marks (GroupEnd # k) mo res"
      by (auto simp: lift_marks_def res mo)
  qed
  finally show ?case by simp
next
  case (4 k s m)
  then show ?case by simp
next
  case (5 p k m)
  show ?case by simp
next
  case (6 p k x xs m)
  show ?case
  proof (cases "p x")
    case True
    with "6.IH" [of mo] show ?thesis by simp
  next
    case False
    then show ?thesis by simp
  qed
next
  case (7 k s m)
  show ?case
  proof (cases "s = [] \<or> s = [CHR 0x0A]")
    case True
    with "7.IH" [of mo] show ?thesis by simp
  next
    case False
    then show ?thesis by simp
  qed
next
  case (8 a b k s m)
  from "8.IH" [of mo] show ?case by simp
next
  case (9 a b k s m)
  show ?case
  proof (cases "run (Re a # k) s m")
    case None
    with "9.IH"(1) [of mo] "9.IH"(2) [of mo] show ?thesis by simp
  next
    case (Some res)
    with "9.IH"(1) [of mo] show ?thesis by simp
  qed
next
  case (10 a k s m)
  show ?case
  proof (cases "run (Re a # k) s m")
    case None
    with "10.IH"(1) [of mo] "10.IH"(2) [of mo] show ?thesis by simp
  next
    case (Some res)
    with "10.IH"(1) [of mo] show ?thesis by simp
  qed
next
  case (11 p k m)
  from "11.IH" [of mo] show ?case by simp
next
  case (12 p k x xs m)
  show ?case
  proof (cases "p x")
    case False
    with "12.IH"(3) [of mo] show ?thesis by simp
  next
    case True
    show ?thesis
    proof (cases "run (Re (Star p) # k) xs m")
      case None
      with True "12.IH"(1) [of mo] "12.IH"(2) [of mo] show ?thesis by simp
    next
      case (Some res)
      with True "12.IH"(1) [of mo] show ?thesis by simp
    qed
  qed
next
  case (13 p k m)
  from "13.IH" [of mo] show ?case by simp
next
  case (14 p k x xs m)
  show ?case
  proof (cases "run k (x # xs) m")
    case (Some res)
    with "14.IH"(1) [of mo] show ?thesis by simp
  next
    case None
    show ?thesis
    proof (cases "p x")
      case True
      with None "14.IH"(1) [of mo] "14.IH"(2) [of mo] show ?thesis by simp
    next
      case False
      with None "14.IH"(1) [of mo] show ?thesis by simp
    qed
  qed
qed

lemma match_here_opt_eq:
  "match_here_opt p s = map_option (\<lambda>(g, r). (Some g, r)) (match_here p s)"
proof -
  let ?k = "[Re (before p), GroupStart, Re (group p), GroupEnd, Re (after p)]"
  have l: "lift_marks ?k (None, None) ((gs, ge), r) = ((Some gs, Some ge), r)" for gs ge r
    by (simp add: lift_marks_def)
  show ?thesis
  proof (cases "run ?k s (s, s)")
    case None
    then show ?thesis
      using run_opt_run [of ?k s "(None, None)" "(s, s)"]
      by (simp add: match_here_opt_def match_here_def)
  next
    case (Some res)
    obtain gs ge r where res: "res = ((gs, ge), r)" by (cases res) auto
    from Some res have "run_opt ?k s (None, None) = Some ((Some gs, Some ge), r)"
      using run_opt_run [of ?k s "(None, None)" "(s, s)"] l by simp
    with Some res show ?thesis
      by (simp add: match_here_opt_def match_here_def group_text_def)
  qed
qed

lemma re_search_opt_eq:
  "re_search_opt p s = map_option (\<lambda>(g, r). (Some g, r)) (re_search p s)"
proof (induction s)
  case Nil
  show ?case by (simp add: match_here_opt_eq)
next
  case (Cons c cs)
  show ?case
  proof (cases "match_here p (c # cs)")
    case None
    with Cons.IH show ?thesis by (simp add: match_here_opt_eq)
  next
    case (Some res)
    then show ?thesis by (cases res) (simp add: match_here_opt_eq)
  qed
qed

lemma parse_ingredients_checked_eq:
  "parse_ingredients_checked text = Inr (parse_ingredients_from_text text)"
proof (cases "re_search ingredients_pattern (lower text)")
  case None
  then show ?thesis
    by (simp add: parse_ingredients_checked_def parse_ingredients_from_text_def re_search_opt_eq)
next
  case (Some res)
  obtain g r where res: "res = (g, r)" by (cases res)
  with Some show ?thesis
    by (simp add: parse_ingredients_checked_def parse_ingredients_from_text_def re_search_opt_eq
        group1_def)
qed

lemma ends_litis:
  "ends (litis w) s =
     (if startswith (lower s) (lower w) then [drop (length w) s] else [])"
proof (induction w arbitrary: s)
  case Nil
  show ?case by (simp add: litis_def lower_def)
next
  case (Cons c w)
  have IH: "ends (seqs (map liti w)) xs =
      (if startswith (lower xs) (lower w) then [drop (length w) xs] else [])" for xs
    using Cons.IH [of xs] by (simp add: litis_def)
  show ?case
  proof (cases s)
    case Nil
    then show ?thesis by (simp add: litis_def liti_def lower_def)
  next
    case (Cons x xs)
    then show ?thesis by (simp add: litis_def liti_def IH lower_def)
  qed
qed

lemma lower_ingredient: "lower ''ingredient'' = ''ingredient''"
  by (simp add: lower_def char_eval)

lemma ends_header:
  "(ends header t \<noteq> []) = startswith (lower t) ''ingredient''"
proof -
  have tail: "ends (Seq (Opt a) (Seq (Opt b) Eps)) u \<noteq> []" for a b u
    by simp
  show ?thesis
    unfolding header_def seqs.simps
    by (simp add: ends_litis lower_ingredient tail del: ends.simps(5)
        add: ends.simps(5) [of "litis ''ingredient''"])
qed

lemma matches_in_header:
  "matches_in header s = str_in ''ingredient'' (lower s)"
proof (induction s)
  case Nil
  show ?case using ends_header [of "[]"] by (simp add: lower_def)
next
  case (Cons c cs)
  have "lower (c # cs) = lower_char c # lower cs" by (simp add: lower_def)
  with Cons ends_header [of "c # cs"] show ?case by simp
qed

lemma has_header_iff: "has_header text = str_in ''ingredient'' (lower text)"
  by (simp add: has_header_def matches_in_header)

text \<open>
  Claim C7. A text in which the header pattern, \<open>ingredient\<close> or \<open>ingredients\<close> with an
  optional colon and letters of either case, matches nowhere yields the empty list, and a
  text in which none of the nutrition patterns matches yields the empty dictionary. The
  parser never raises: with the exception of \<open>None.split\<close> written out as a result, it
  returns the list for every text.
\<close>
theorem no_header_gives_empty_results:
  "(\<not> has_header text \<longrightarrow> parse_ingredients_from_text text = []) \<and>
   ((\<forall>(nutrient, pat) \<in> set patterns. re_search pat (lower text) = None) \<longrightarrow>
      extract_nutritional_info text = []) \<and>
   parse_ingredients_checked text = Inr (parse_ingredients_from_text text)"
  by (simp add: parse_ingredients_from_text_def no_header_no_match has_header_iff
      extract_nutritional_info_def extract_loop_no_match parse_ingredients_checked_eq)

theorem no_header_gives_empty_results_witness:
  "\<not> has_header ''Sugar, salt'' \<and>
   parse_ingredients_from_text ''Sugar, salt'' = [] \<and>
   list_all (\<lambda>(nutrient, pat). re_search pat (lower ''Sugar, salt'') = None) patterns \<and>
   extract_nutritional_info ''Sugar, salt'' = [] \<and>
   parse_ingredients_checked ''Sugar, salt'' = Inr []"
proof -
  have l: "lower ''Sugar, salt'' = ''sugar, salt''"
    by (simp add: lower_def char_eval)
  have a: "\<not> has_header ''Sugar, salt''"
    unfolding has_header_iff l by simp
  have b: "list_all (\<lambda>(nutrient, pat). re_search pat (lower ''Sugar, salt'') = None) patterns"
    unfolding l by (simp add: patterns_def regex_eval char_eval)
  from no_header_gives_empty_results [of "''Sugar, salt''"] a b show ?thesis
    by (simp add: list_all_iff)
qed

text \<open>
  Claim C9. Every entry that \<open>parse_ingredients_from_text\<close> returns is unchanged by
  \<open>lower\<close> and contains no uppercase character: the header is searched and the span is
  captured in the lowercased text.
\<close>
theorem parse_ingredients_tokens_lowercase:
  "\<forall>tok \<in> set (parse_ingredients_from_text text).
      lower tok = tok \<and> (\<forall>c \<in> set tok. \<not> is_upper c)"
proof
  fix tok
  assume tok: "tok \<in> set (parse_ingredients_from_text text)"
  obtain m where m: "re_search ingredients_pattern (lower text) = Some m"
  proof (cases "re_search ingredients_pattern (lower text)")
    case None
    with tok show ?thesis by (simp add: parse_ingredients_from_text_def)
  next
    case (Some m)
    with that show ?thesis .
  qed
  with tok have "tok \<in> strip ` set (split CHR '','' (fst m))"
    by (auto simp: parse_ingredients_from_text_def group1_def)
  then obtain piece where piece: "piece \<in> set (split CHR '','' (fst m))" and t: "tok = strip piece"
    by blast
  from m have "set (fst m) \<subseteq> set (lower text)"
    using re_search_group_chars [of ingredients_pattern "lower text" "fst m" "snd m"] by simp
  with set_split [OF piece] set_strip [of piece] t have sub: "set tok \<subseteq> set (lower text)"
    by blast
  have fixed: "lower_char c = c" if "c \<in> set tok" for c
  proof -
    from that sub obtain c' where "c = lower_char c'" by (auto simp: lower_def)
    then show ?thesis by (simp add: lower_char_idem)
  qed
  then have "lower tok = tok" by (simp add: lower_def map_idI)
  moreover have "\<forall>c \<in> set tok. \<not> is_upper c"
    using fixed by (simp add: lower_char_fixed_iff)
  ultimately show "lower tok = tok \<and> (\<forall>c \<in> set tok. \<not> is_upper c)" by blast
qed

lemma parse_example_upper:
  "parse_ingredients_from_text ''INGREDIENTS: Wheat Flour, SUGAR'' = [''wheat flour'', ''sugar'']"
  by (simp add: parse_ingredients_from_text_def ingredients_pattern_def regex_eval
      lower_def strip_def char_eval)

theorem parse_ingredients_tokens_lowercase_witness:
  "parse_ingredients_from_text ''INGREDIENTS: Wheat Flour, SUGAR'' = [''wheat flour'', ''sugar''] \<and>
   lower ''wheat flour'' = ''wheat flour'' \<and> \<not> is_upper CHR ''w'' \<and>
   lower ''sugar'' = ''sugar''"
  using parse_ingredients_tokens_lowercase [of "''INGREDIENTS: Wheat Flour, SUGAR''"]
  by (simp add: parse_example_upper)

section \<open>The scan request and the store\<close>

lemma analyze_ingredients_insert_one:
  "analyze_ingredients (Some (d\<lparr>insert_one := w\<rparr>)) ns = analyze_ingredients (Some d) ns"
  by (simp add: analyze_ingredients_map analysis_insert_one)

lemma analyze_ingredients_unreadable:
  assumes "db = None \<or> (\<exists>d. db = Some d \<and> (\<forall>q. isl (find_one d q)))"
  shows "analyze_ingredients db ns = analyze_ingredients None ns"
proof -
  have "map (analysis db) ns = map (analysis None) ns"
    by (rule map_cong [OF refl]) (rule analysis_unreadable [OF assms])
  then show ?thesis by (simp only: analyze_ingredients_map)
qed

lemma store_scan_unwritable:
  "db = None \<or> (\<exists>d. db = Some d \<and> (\<forall>doc. isl (insert_one d doc))) \<Longrightarrow>
   store_scan db doc = False"
proof (cases db)
  case None
  then show ?thesis by (simp add: store_scan_def)
next
  case (Some d)
  assume "db = None \<or> (\<exists>d. db = Some d \<and> (\<forall>doc. isl (insert_one d doc)))"
  with Some have "isl (insert_one d doc)" by simp
  then show ?thesis using Some by (cases "insert_one d doc") (simp_all add: store_scan_def)
qed

lemma scan_food_label_valid:
  assumes "content_type file = Some ct" and "startswith ct ''image/''"
    and "length (content file) \<le> 10 * 1024 * 1024" and "image_valid env"
  shows "scan_food_label db env file =
     (Inr \<lparr>scan_id = new_scan_id env,
           ocr_text = extracted_text env,
           parsed_ingredients =
             analyze_ingredients db (parse_ingredients_from_text (extracted_text env)),
           processing_time = elapsed env,
           image_info = \<lparr>info_filename = filename file,
                          info_size = length (content file),
                          info_content_type = content_type file\<rparr>,
           nutritional_info = extract_nutritional_info (extracted_text env)\<rparr>,
      store_scan db
        \<lparr>sd_id = new_scan_id env,
         sd_image_filename = filename file,
         sd_image_size = length (content file),
         sd_ocr_text = extracted_text env,
         sd_parsed_ingredients =
           analyze_ingredients db (parse_ingredients_from_text (extracted_text env)),
         sd_nutritional_info = extract_nutritional_info (extracted_text env),
         sd_processing_time = elapsed env,
         sd_created_at = now env\<rparr>)"
proof -
  from assms(2) have "ct \<noteq> []" by (cases ct) simp_all
  with assms show ?thesis
    by (simp add: scan_food_label_def Let_def)
qed

text \<open>
  Claim C8. For an upload that passes validation, the response is the computed report
  whatever the store does. When the store is absent or every read raises, the verdicts are
  those of the in-process table alone. When the store is absent or every write raises,
  nothing is stored and the report is returned all the same; and the report does not
  depend on what \<open>insert_one\<close> does.
\<close>
theorem store_failure_never_fails_request:
  assumes "content_type file = Some ct" and "startswith ct ''image/''"
    and "length (content file) \<le> 10 * 1024 * 1024" and "image_valid env"
  shows
    "fst (scan_food_label db env file) =
       Inr \<lparr>scan_id = new_scan_id env,
            ocr_text = extracted_text env,
            parsed_ingredients =
              analyze_ingredients db (parse_ingredients_from_text (extracted_text env)),
            processing_time = elapsed env,
            image_info = \<lparr>info_filename = filename file,
                           info_size = length (content file),
                           info_content_type = content_type file\<rparr>,
            nutritional_info = extract_nutritional_info (extracted_text env)\<rparr>
     \<and> (db = None \<or> (\<exists>d. db = Some d \<and> (\<forall>q. isl (find_one d q))) \<longrightarrow>
          analyze_ingredients db (parse_ingredients_from_text (extracted_text env)) =
          analyze_ingredients None (parse_ingredients_from_text (extracted_text env)))
     \<and> (db = None \<or> (\<exists>d. db = Some d \<and> (\<forall>doc. isl (insert_one d doc))) \<longrightarrow>
          snd (scan_food_label db env file) = False)
     \<and> (\<forall>d w. db = Some d \<longrightarrow>
          fst (scan_food_label (Some (d\<lparr>insert_one := w\<rparr>)) env file) =
          fst (scan_food_label db env file))"
proof (intro conjI impI allI)
  show "fst (scan_food_label db env file) =
       Inr \<lparr>scan_id = new_scan_id env,
            ocr_text = extracted_text env,
            parsed_ingredients =
              analyze_ingredients db (parse_ingredients_from_text (extracted_text env)),
            processing_time = elapsed env,
            image_info = \<lparr>info_filename = filename file,
                           info_size = length (content file),
                           info_content_type = content_type file\<rparr>,
            nutritional_info = extract_nutritional_info (extracted_text env)\<rparr>"
    by (simp add: scan_food_label_valid [OF assms])
next
  assume "db = None \<or> (\<exists>d. db = Some d \<and> (\<forall>q. isl (find_one d q)))"
  then show "analyze_ingredients db (parse_ingredients_from_text (extracted_text env)) =
          analyze_ingredients None (parse_ingredients_from_text (extracted_text env))"
    by (rule analyze_ingredients_unreadable)
next
  assume "db = None \<or> (\<exists>d. db = Some d \<and> (\<forall>doc. isl (insert_one d doc)))"
  then show "snd (scan_food_label db env file) = False"
    by (simp add: scan_food_label_valid [OF assms] store_scan_unwritable)
next
  fix d w
  assume "db = Some d"
  then show "fst (scan_food_label (Some (d\<lparr>insert_one := w\<rparr>)) env file) =
          fst (scan_food_label db env file)"
    by (simp add: scan_food_label_valid [OF assms] analyze_ingredients_insert_one)
qed

lemma sugar_label:
  "parse_ingredients_from_text ''Ingredients: sugar'' = [''sugar'']"
  "extract_nutritional_info ''Ingredients: sugar'' = []"
  by (simp_all add: parse_ingredients_from_text_def ingredients_pattern_def
      extract_nutritional_info_def patterns_def regex_eval lower_def strip_def char_eval)

lemma sugar_verdict:
  "analysis None ''sugar'' =
     \<lparr>name = ''Sugar'', risk_level = ''safe'',
      description = ''Natural sweetener, safe in moderation'',
      banned_in = [], sources = [''FDA''], confidence = 0.85\<rparr>"
proof -
  have t: "strip (lower ''sugar'') = ''sugar''"
    by (simp add: strip_def lower_def char_eval)
  show ?thesis
    unfolding analysis_def Let_def t
    by (simp add: db_lookup_def SAMPLE_INGREDIENTS_def get_or_def)
qed

theorem store_failure_never_fails_request_witness:
  "scan_food_label
     (Some \<lparr>find_one = \<lambda>q. Inl ''ServerSelectionTimeoutError'',
            insert_one = \<lambda>doc. Inl ''ServerSelectionTimeoutError''\<rparr>)
     \<lparr>image_valid = True, extracted_text = ''Ingredients: sugar'',
      new_scan_id = ''scan-1'', elapsed = 1, now = 0\<rparr>
     \<lparr>filename = Some ''label.png'', content_type = Some ''image/png'', content = [1, 2, 3]\<rparr>
   = (Inr \<lparr>scan_id = ''scan-1'',
           ocr_text = ''Ingredients: sugar'',
           parsed_ingredients =
             [\<lparr>name = ''Sugar'', risk_level = ''safe'',
               description = ''Natural sweetener, safe in moderation'',
               banned_in = [], sources = [''FDA''], confidence = 0.85\<rparr>],
           processing_time = 1,
           image_info = \<lparr>info_filename = Some ''label.png'', info_size = 3,
                          info_content_type = Some ''image/png''\<rparr>,
           nutritional_info = []\<rparr>,
      False)"
proof -
  let ?db = "Some \<lparr>find_one = \<lambda>q. Inl ''ServerSelectionTimeoutError'',
            insert_one = \<lambda>doc. Inl ''ServerSelectionTimeoutError''\<rparr>"
  let ?env = "\<lparr>image_valid = True, extracted_text = ''Ingredients: sugar'',
      new_scan_id = ''scan-1'', elapsed = 1, now = 0\<rparr>"
  let ?file = "\<lparr>filename = Some ''label.png'', content_type = Some ''image/png'',
      content = [1, 2, 3 :: 8 word]\<rparr>"
  have h1: "content_type ?file = Some ''image/png''" by simp
  have h2: "startswith ''image/png'' ''image/''" by simp
  have h3: "length (content ?file) \<le> 10 * 1024 * 1024" by simp
  have h4: "image_valid ?env" by simp
  have r: "db = None \<or> (\<exists>d. db = Some d \<and> (\<forall>q. isl (find_one d q)))"
    if "db = ?db" for db using that by simp
  have w: "db = None \<or> (\<exists>d. db = Some d \<and> (\<forall>doc. isl (insert_one d doc)))"
    if "db = ?db" for db using that by simp
  note inst = store_failure_never_fails_request [OF h1 h2 h3 h4, of ?db]
  from inst r [of ?db] have
    "analyze_ingredients ?db (parse_ingredients_from_text (extracted_text ?env)) =
     analyze_ingredients None (parse_ingredients_from_text (extracted_text ?env))"
    by blast
  then have a: "analyze_ingredients ?db (parse_ingredients_from_text (extracted_text ?env)) =
      [\<lparr>name = ''Sugar'', risk_level = ''safe'',
               description = ''Natural sweetener, safe in moderation'',
               banned_in = [], sources = [''FDA''], confidence = 0.85\<rparr>]"
    by (simp add: sugar_label analyze_ingredients_map sugar_verdict)
  from inst w [of ?db] have s: "snd (scan_food_label ?db ?env ?file) = False"
    by blast
  from inst have "fst (scan_food_label ?db ?env ?file) =
       Inr \<lparr>scan_id = new_scan_id ?env,
            ocr_text = extracted_text ?env,
            parsed_ingredients =
              analyze_ingredients ?db (parse_ingredients_from_text (extracted_text ?env)),
            processing_time = elapsed ?env,
            image_info = \<lparr>info_filename = filename ?file,
                           info_size = length (content ?file),
                           info_content_type = content_type ?file\<rparr>,
            nutritional_info = extract_nutritional_info (extracted_text ?env)\<rparr>"
    by blast
  with a have f: "fst (scan_food_label ?db ?env ?file) =
     Inr \<lparr>scan_id = ''scan-1'',
           ocr_text = ''Ingredients: sugar'',
           parsed_ingredients =
             [\<lparr>name = ''Sugar'', risk_level = ''safe'',
               description = ''Natural sweetener, safe in moderation'',
               banned_in = [], sources = [''FDA''], confidence = 0.85\<rparr>],
           processing_time = 1,
           image_info = \<lparr>info_filename = Some ''label.png'', info_size = 3,
                          info_content_type = Some ''image/png''\<rparr>,
           nutritional_info = []\<rparr>"
    by (simp add: sugar_label)
  from f s show ?thesis by (simp add: prod_eq_iff)
qed

section \<open>The matcher and its pieces\<close>

lemma option_case_id [simp]: "(case x of None \<Rightarrow> None | Some r \<Rightarrow> Some r) = x"
  by (cases x) simp_all

lemma first_some_last [simp]:
  "(case y of None \<Rightarrow> first_some f [] | Some r \<Rightarrow> Some r) = y"
  by (cases y) simp_all

lemma first_some_append:
  "first_some f (xs @ ys) = (case first_some f xs of Some r \<Rightarrow> Some r | None \<Rightarrow> first_some f ys)"
  by (induction xs) (simp_all split: option.splits)

lemma first_some_concat:
  "first_some f (concat (map g xs)) = first_some (\<lambda>x. first_some f (g x)) xs"
  by (induction xs) (simp_all add: first_some_append split: option.splits)

lemma first_some_Some:
  "first_some f xs = Some r \<Longrightarrow> \<exists>x \<in> set xs. f x = Some r"
  by (induction xs) (auto split: option.splits)

lemma first_some_hd:
  "f x = Some r \<Longrightarrow> first_some f (x # xs) = Some r"
  by simp

lemma run_Star_ends:
  assumes "\<And>s'. run k s' m = f s'"
  shows "run (Re (Star p) # k) s m = first_some f (ends (Star p) s)"
proof (induction s)
  case Nil
  show ?case by (simp add: assms)
next
  case (Cons x xs)
  then show ?case by (simp add: assms first_some_append split: option.splits)
qed

lemma run_LazyStar_ends:
  assumes "\<And>s'. run k s' m = f s'"
  shows "run (Re (LazyStar p) # k) s m = first_some f (ends (LazyStar p) s)"
proof (induction s)
  case Nil
  show ?case by (simp add: assms)
next
  case (Cons x xs)
  then show ?case by (simp add: assms split: option.splits)
qed

theorem run_ends:
  "run (Re a # k) s m = first_some (\<lambda>s'. run k s' m) (ends a s)"
proof (induction a arbitrary: k s m)
  case Eps
  show ?case by simp
next
  case (Cls p)
  show ?case by (cases s) simp_all
next
  case Dollar
  show ?case by simp
next
  case (Seq a b)
  have "run (Re (Seq a b) # k) s m = run (Re a # Re b # k) s m" by simp
  also have "\<dots> = first_some (\<lambda>s'. run (Re b # k) s' m) (ends a s)" by (rule Seq.IH(1))
  also have "\<dots> = first_some (\<lambda>s'. first_some (\<lambda>s''. run k s'' m) (ends b s')) (ends a s)"
    by (simp only: Seq.IH(2))
  also have "\<dots> = first_some (\<lambda>s'. run k s' m) (ends (Seq a b) s)"
    by (simp add: first_some_concat)
  finally show ?case .
next
  case (Alt a b)
  show ?case by (simp add: first_some_append Alt.IH split: option.splits)
next
  case (Opt a)
  show ?case by (simp add: first_some_append Opt.IH split: option.splits)
next
  case (Star p)
  show ?case by (rule run_Star_ends) simp
next
  case (LazyStar p)
  show ?case by (rule run_LazyStar_ends) simp
qed

lemma ends_suffix: "s' \<in> set (ends a s) \<Longrightarrow> suffix s' s"
proof (induction a s arbitrary: s' rule: ends.induct)
  case (1 s)
  then show ?case by simp
next
  case (2 p)
  then show ?case by simp
next
  case (3 p x xs)
  then show ?case by (auto split: if_splits simp: suffix_Cons)
next
  case (4 s)
  then show ?case by (auto split: if_splits)
next
  case (5 a b s)
  from "5.prems" obtain s1 where "s1 \<in> set (ends a s)" and "s' \<in> set (ends b s1)" by auto
  with "5.IH" show ?case using suffix_order.trans by blast
next
  case (6 a b s)
  then show ?case by auto
next
  case (7 a s)
  then show ?case by auto
next
  case (8 p)
  then show ?case by simp
next
  case (9 p x xs)
  then show ?case by (auto split: if_splits simp: suffix_Cons)
next
  case (10 p)
  then show ?case by simp
next
  case (11 p x xs)
  then show ?case by (auto split: if_splits simp: suffix_Cons)
qed

text \<open>A match attempt in terms of the three pieces of the pattern.\<close>

lemma match_here_ends:
  "match_here p s =
     first_some (\<lambda>s1. first_some (\<lambda>s2. first_some (\<lambda>s3. Some (take (length s1 - length s2) s1, s3))
                                             (ends (after p) s2))
                                  (ends (group p) s1))
                (ends (before p) s)"
proof -
  have e: "(case x of None \<Rightarrow> None | Some ((gs, ge), rest) \<Rightarrow> Some (take (length gs - length ge) gs, rest))
        = map_option (\<lambda>((gs, ge), rest). (take (length gs - length ge) gs, rest)) x" for x
    by (cases x) auto
  have m: "map_option h (first_some f xs) = first_some (\<lambda>x. map_option h (f x)) xs" for h f xs
    by (induction xs) (simp_all split: option.splits)
  show ?thesis
    unfolding match_here_def e
    by (simp add: run_ends m)
qed

section \<open>What the pieces of the patterns match\<close>

lemma leads_Eps: "leads Eps [] s"
  by (simp add: leads_def)

lemma leads_Cls: "p x \<Longrightarrow> leads (Cls p) [x] s"
  by (simp add: leads_def)

lemma leads_Seq:
  assumes "leads a c1 (c2 @ s)" and "leads b c2 s"
  shows "leads (Seq a b) (c1 @ c2) s"
proof -
  from assms obtain oa ob where "ends a (c1 @ c2 @ s) = (c2 @ s) # oa" and "ends b (c2 @ s) = s # ob"
    by (auto simp: leads_def)
  then show ?thesis by (simp add: leads_def)
qed

lemma leads_Seq_Eps: "leads a c s \<Longrightarrow> leads (Seq a Eps) c s"
  using leads_Seq [of a c "[]" s Eps] leads_Eps by simp

lemma leads_Opt_take: "leads a c s \<Longrightarrow> leads (Opt a) c s"
  by (auto simp: leads_def)

lemma leads_Opt_skip: "ends a s = [] \<Longrightarrow> leads (Opt a) [] s"
  by (simp add: leads_def)

lemma leads_Star:
  "list_all p w \<Longrightarrow> s = [] \<or> \<not> p (hd s) \<Longrightarrow> leads (Star p) w s"
proof (induction w)
  case Nil
  then show ?case by (cases s) (auto simp: leads_def)
next
  case (Cons y ys)
  then obtain others where "ends (Star p) (ys @ s) = s # others"
    by (auto simp: leads_def)
  with Cons.prems show ?case by (simp add: leads_def)
qed

lemma leads_Plus:
  assumes "w \<noteq> []" and "list_all p w" and "s = [] \<or> \<not> p (hd s)"
  shows "leads (Plus p) w s"
proof -
  from assms(1) obtain y ys where w: "w = y # ys" by (cases w) auto
  with assms have "leads (Cls p) [y] (ys @ s)" and "leads (Star p) ys s"
    by (simp_all add: leads_Cls leads_Star)
  then have "leads (Seq (Cls p) (Star p)) ([y] @ ys) s" by (rule leads_Seq)
  with w show ?thesis by (simp add: Plus_def)
qed

lemma ends_lits:
  "ends (lits w) s = (if startswith s w then [drop (length w) s] else [])"
proof (induction w arbitrary: s)
  case Nil
  show ?case by (simp add: lits_def)
next
  case (Cons c w)
  have IH: "ends (seqs (map lit w)) xs = (if startswith xs w then [drop (length w) xs] else [])" for xs
    using Cons.IH [of xs] by (simp add: lits_def)
  show ?case
  proof (cases s)
    case Nil
    then show ?thesis by (simp add: lits_def lit_def)
  next
    case (Cons x xs)
    then show ?thesis by (simp add: lits_def lit_def IH)
  qed
qed

lemma startswith_append: "startswith (w @ s) w"
  by (induction w) simp_all

lemma leads_lits: "leads (lits w) w s"
  by (simp add: leads_def ends_lits startswith_append)

lemma ends_lit: "ends (lit c) s = (if s \<noteq> [] \<and> hd s = c then [tl s] else [])"
  by (cases s) (simp_all add: lit_def)

lemma leads_lit: "leads (lit c) [c] s"
  by (simp add: leads_def ends_lit)

text \<open>The first attempt succeeds when each piece leads to the next.\<close>

lemma match_here_leads:
  assumes "leads (before p) a (n @ c @ rest)"
    and "leads (group p) n (c @ rest)"
    and "leads (after p) c rest"
  shows "match_here p (a @ n @ c @ rest) = Some (n, rest)"
proof -
  from assms obtain o1 o2 o3 where
    "ends (before p) (a @ n @ c @ rest) = (n @ c @ rest) # o1"
    "ends (group p) (n @ c @ rest) = (c @ rest) # o2"
    "ends (after p) (c @ rest) = rest # o3"
    by (auto simp: leads_def)
  then show ?thesis by (simp add: match_here_ends)
qed

lemma re_search_here:
  "match_here p s = Some m \<Longrightarrow> re_search p s = Some m"
  by (cases s) simp_all

text \<open>Conversely, what a successful attempt has consumed.\<close>

lemma match_here_Some:
  assumes "match_here p s = Some (g, r)"
  shows "\<exists>s1 s2. s1 \<in> set (ends (before p) s) \<and> s2 \<in> set (ends (group p) s1) \<and>
           r \<in> set (ends (after p) s2) \<and> g = take (length s1 - length s2) s1"
proof -
  from assms [unfolded match_here_ends] obtain s1 where s1: "s1 \<in> set (ends (before p) s)"
    and a: "first_some (\<lambda>s2. first_some (\<lambda>s3. Some (take (length s1 - length s2) s1, s3))
              (ends (after p) s2)) (ends (group p) s1) = Some (g, r)"
    by (blast dest: first_some_Some)
  from first_some_Some [OF a] obtain s2 where s2: "s2 \<in> set (ends (group p) s1)"
    and b: "first_some (\<lambda>s3. Some (take (length s1 - length s2) s1, s3)) (ends (after p) s2) = Some (g, r)"
    by blast
  from first_some_Some [OF b] obtain s3 where "s3 \<in> set (ends (after p) s2)"
    and "Some (take (length s1 - length s2) s1, s3) = Some (g, r)"
    by blast
  with s1 s2 show ?thesis by auto
qed

lemma ends_Star_consumed:
  "s2 \<in> set (ends (Star p) s1) \<Longrightarrow> \<exists>n. s1 = n @ s2 \<and> list_all p n"
proof (induction s1)
  case Nil
  then show ?case by simp
next
  case (Cons x xs)
  show ?case
  proof (cases "s2 = x # xs")
    case True
    then show ?thesis by simp
  next
    case False
    with Cons.prems have px: "p x" and "s2 \<in> set (ends (Star p) xs)"
      by (auto split: if_splits)
    with Cons.IH obtain n where "xs = n @ s2" and "list_all p n" by blast
    with px have "x # xs = (x # n) @ s2 \<and> list_all p (x # n)" by simp
    then show ?thesis by blast
  qed
qed

lemma ends_Plus_consumed:
  assumes "s2 \<in> set (ends (Plus p) s1)"
  shows "\<exists>n. s1 = n @ s2 \<and> n \<noteq> [] \<and> list_all p n"
proof -
  from assms obtain x xs where s1: "s1 = x # xs" and px: "p x" and "s2 \<in> set (ends (Star p) xs)"
    by (cases s1) (auto simp: Plus_def split: if_splits)
  with ends_Star_consumed obtain n where "xs = n @ s2" and "list_all p n" by blast
  with s1 px have "s1 = (x # n) @ s2 \<and> x # n \<noteq> [] \<and> list_all p (x # n)" by simp
  then show ?thesis by blast
qed

lemma take_consumed: "take (length (n @ s) - length s) (n @ s) = n"
  by simp

section \<open>The leftmost match\<close>

lemma re_search_leftmost:
  "re_search p s = Some m \<Longrightarrow>
   \<exists>i \<le> length s. match_here p (drop i s) = Some m \<and>
      (\<forall>j<i. match_here p (drop j s) = None)"
proof (induction s)
  case Nil
  then have "match_here p (drop 0 []) = Some m \<and> (\<forall>j<0. match_here p (drop j []) = None)"
    by simp
  then show ?case by (intro exI [where x = 0]) simp
next
  case (Cons c cs)
  show ?case
  proof (cases "match_here p (c # cs)")
    case (Some m')
    with Cons.prems have "match_here p (c # cs) = Some m" by simp
    then show ?thesis by (intro exI [where x = 0]) simp
  next
    case None
    with Cons.prems have "re_search p cs = Some m" by simp
    from Cons.IH [OF this] obtain i where i: "i \<le> length cs"
      and hit: "match_here p (drop i cs) = Some m"
      and early: "\<And>j. j < i \<Longrightarrow> match_here p (drop j cs) = None"
      by (elim exE conjE) simp
    have "match_here p (drop j (c # cs)) = None" if "j < Suc i" for j
    proof (cases j)
      case 0
      with None show ?thesis by simp
    next
      case (Suc j')
      with that early [of j'] show ?thesis by simp
    qed
    with i hit show ?thesis by (intro exI [where x = "Suc i"]) simp
  qed
qed

section \<open>The dictionary of nutrition facts\<close>


lemma distinct_extract_loop:
  "distinct (map fst info) \<Longrightarrow> distinct (map fst (extract_loop ps text info))"
proof (induction ps arbitrary: info)
  case Nil
  then show ?case by simp
next
  case (Cons e ps)
  obtain nutrient pat where e: "e = (nutrient, pat)" by (cases e)
  show ?case
    using Cons.prems by (simp add: e Cons.IH distinct_update split: option.splits)
qed



section \<open>The reference label, parsed\<close>


















end
